theory Spec2Isabelle
  imports Complex_Main "HOL-Library.Word"
begin

unbundle bit_operations_syntax

section \<open>The index of a Nortek Signature file (dolfyn/io/nortek2lib.py)\<close>

text \<open>
  The input file is the list of its bytes, the index file the list of the entries
  written to it, in order. Python integers are \<open>int\<close>; the fields of
  \<open>index_dtype\<close> are words of the declared widths. An exception that leaves a
  function is a value of \<open>error\<close>.
\<close>

type_synonym byte = "8 word"

datatype error =
    StructError
  | OSError
  | IndexError
  | ConfigNotIdentical "16 word"
  | BeamsCyNotIdentical "16 word"
  | KeyError string
  | AttributeError string
  | TypeError
  | ValueError
  | ZeroDivisionError
  | LinAlgError

text \<open>\<open>index_dtype\<close>: one entry of the index file.\<close>

record index_entry =
  ens :: "64 word"
  pos :: "64 word"
  ID :: "16 word"
  config :: "16 word"
  beams_cy :: "16 word"
  blank :: "16 word"
  year :: "8 word"
  month :: "8 word"
  day :: "8 word"
  hour :: "8 word"
  minute :: "8 word"
  second :: "8 word"
  usec100 :: "16 word"

subsection \<open>Reading the input file\<close>

text \<open>
  \<open>fin.read(n)\<close> at offset \<open>p\<close>: the next \<open>n\<close> bytes, fewer at the end of the
  file, none beyond it.
\<close>

definition fin_read :: "byte list \<Rightarrow> int \<Rightarrow> nat \<Rightarrow> byte list" where
  "fin_read bytes p n = take n (drop (nat p) bytes)"

text \<open>
  \<open>fin.seek(off, 1)\<close> at offset \<open>p\<close>: the new offset. A seek beyond the end of the
  file is allowed, a seek before its start raises.
\<close>

definition seek_cur :: "int \<Rightarrow> int \<Rightarrow> error + int" where
  "seek_cur p off = (if p + off < 0 then Inl OSError else Inr (p + off))"

text \<open>Little-endian integers, unsigned and signed 16 bit (\<open>struct\<close>'s H, I and h).\<close>

definition le_uint :: "byte list \<Rightarrow> int" where
  "le_uint bs = foldr (\<lambda>b acc. uint b + 256 * acc) bs 0"

definition le_sint16 :: "byte list \<Rightarrow> int" where
  "le_sint16 bs = sint (word_of_int (le_uint bs) :: 16 word)"

text \<open>
  \<open>hdr = struct.Struct('<BBBBhhh')\<close>: the ten bytes of a record header. \<open>dat4\<close>
  is the size of the record's data, read as a signed 16-bit integer. \<open>hdr.unpack\<close>
  raises on any other number of bytes; the caller's bare \<open>except\<close> catches it, so
  the failure is \<open>None\<close>.
\<close>

record hdr_dat =
  dat0 :: int
  dat1 :: int
  dat2 :: int
  dat3 :: int
  dat4 :: int
  dat5 :: int
  dat6 :: int

definition hdr_unpack :: "byte list \<Rightarrow> hdr_dat option" where
  "hdr_unpack bs =
     (if length bs = 10
      then Some \<lparr>dat0 = uint (bs ! 0), dat1 = uint (bs ! 1), dat2 = uint (bs ! 2),
                 dat3 = uint (bs ! 3), dat4 = le_sint16 (take 2 (drop 4 bs)),
                 dat5 = le_sint16 (take 2 (drop 6 bs)),
                 dat6 = le_sint16 (take 2 (drop 8 bs))\<rparr>
      else None)"

text \<open>\<open>struct.unpack\<close> of \<open>'<H'\<close>, \<open>'<I'\<close> and \<open>'6BH'\<close> (native order taken as
  little-endian): \<open>struct.error\<close> unless the bytes have the format's size.\<close>

definition unpack_H :: "byte list \<Rightarrow> error + int" where
  "unpack_H bs = (if length bs = 2 then Inr (le_uint bs) else Inl StructError)"

definition unpack_I :: "byte list \<Rightarrow> error + int" where
  "unpack_I bs = (if length bs = 4 then Inr (le_uint bs) else Inl StructError)"

definition unpack_6BH :: "byte list \<Rightarrow> error + int list" where
  "unpack_6BH bs =
     (if length bs = 8 then Inr (map uint (take 6 bs) @ [le_uint (drop 6 bs)])
      else Inl StructError)"

text \<open>
  The values that lines 81 to 88 of \<open>create_index_slow\<close> read from a recognised
  record, the cursor being at \<open>p\<close> (just after the header): \<open>seek(2, 1)\<close>,
  \<open>config\<close> (2 bytes), \<open>seek(4, 1)\<close>, the time stamp (8 bytes), \<open>seek(14, 1)\<close>,
  \<open>beams_cy\<close> (2 bytes), \<open>seek(40, 1)\<close>, \<open>ens\<close> (4 bytes). The cursor ends
  at \<open>p + 76\<close>.
\<close>

record rec_fields =
  f_config :: int
  f_time :: "int list"
  f_beams_cy :: int
  f_ens :: int

definition read_fields :: "byte list \<Rightarrow> int \<Rightarrow> error + rec_fields" where
  "read_fields bytes p =
     (case unpack_H (fin_read bytes (p + 2) 2) of
        Inl e \<Rightarrow> Inl e
      | Inr cfg \<Rightarrow>
     (case unpack_6BH (fin_read bytes (p + 2 + 2 + 4) 8) of
        Inl e \<Rightarrow> Inl e
      | Inr tm \<Rightarrow>
     (case unpack_H (fin_read bytes (p + 2 + 2 + 4 + 8 + 14) 2) of
        Inl e \<Rightarrow> Inl e
      | Inr bcy \<Rightarrow>
     (case unpack_I (fin_read bytes (p + 2 + 2 + 4 + 8 + 14 + 2 + 40) 4) of
        Inl e \<Rightarrow> Inl e
      | Inr e \<Rightarrow>
          Inr \<lparr>f_config = cfg, f_time = tm, f_beams_cy = bcy, f_ens = e\<rparr>))))"

text \<open>
  \<open>struct.pack('<QQ4H6BH', N, pos, dat[2], config, beams_cy, 0, yr, mo, dy, h, m, s, u)\<close>:
  \<open>struct.error\<close> when \<open>N\<close> or \<open>pos\<close> does not fit 64 bits; the other values
  come from \<open>unpack\<close> and fit their fields.
\<close>

definition pack_entry :: "int \<Rightarrow> int \<Rightarrow> int \<Rightarrow> rec_fields \<Rightarrow> error + index_entry" where
  "pack_entry n p i f =
     (if 0 \<le> n \<and> n < 2 ^ 64 \<and> 0 \<le> p \<and> p < 2 ^ 64
      then Inr \<lparr>ens = word_of_int n, pos = word_of_int p, ID = word_of_int i,
                config = word_of_int (f_config f), beams_cy = word_of_int (f_beams_cy f),
                blank = 0,
                year = word_of_int (f_time f ! 0), month = word_of_int (f_time f ! 1),
                day = word_of_int (f_time f ! 2), hour = word_of_int (f_time f ! 3),
                minute = word_of_int (f_time f ! 4), second = word_of_int (f_time f ! 5),
                usec100 = word_of_int (f_time f ! 6)\<rparr>
      else Inl StructError)"

subsection \<open>\<open>create_index_slow\<close>\<close>

text \<open>
  The variables that live across iterations of the loop: the cursor of \<open>fin\<close>, what
  has been written to \<open>fout\<close>, \<open>N\<close> and \<open>last_ens\<close>. (\<open>ens\<close> and \<open>config\<close>
  are assigned before every use, so their initial values are never read.)
\<close>

record scan_state =
  fin :: int
  fout :: "index_entry list"
  N :: int
  last_ens :: int

datatype 'a outcome = Break | Raise error | Next 'a

text \<open>One pass through the body of the \<open>while\<close> loop (lines 75 to 97).\<close>

definition loop_body :: "byte list \<Rightarrow> scan_state \<Rightarrow> scan_state outcome" where
  "loop_body bytes st =
     (case hdr_unpack (fin_read bytes (fin st) 10) of
        None \<Rightarrow> Break
      | Some dat \<Rightarrow>
          if dat2 dat \<in> set [21, 24, 26] then
            (case read_fields bytes (fin st + 10) of
               Inl e \<Rightarrow> Raise e
             | Inr f \<Rightarrow>
                 let n = (if last_ens st > 0 \<and> last_ens st \<noteq> f_ens f
                          then N st + 1 else N st)
                 in (case pack_entry n (fin st) (dat2 dat) f of
                       Inl e \<Rightarrow> Raise e
                     | Inr entry \<Rightarrow>
                         (case seek_cur (fin st + 10 + 76) (dat4 dat - 76) of
                            Inl e \<Rightarrow> Raise e
                          | Inr p \<Rightarrow>
                              Next \<lparr>fin = p, fout = fout st @ [entry], N = n,
                                    last_ens = f_ens f\<rparr>)))
          else
            (case seek_cur (fin st + 10) (dat4 dat) of
               Inl e \<Rightarrow> Raise e
             | Inr p \<Rightarrow> Next (st\<lparr>fin := p\<rparr>)))"

text \<open>
  The loop \<open>while N < N_ens\<close>. It need not terminate (a record of size \<open>-10\<close> leaves
  the cursor where it was), so not returning is the value \<open>None\<close>.
\<close>

partial_function (option) scan_loop ::
  "byte list \<Rightarrow> int \<Rightarrow> scan_state \<Rightarrow> (error + scan_state) option" where
  "scan_loop bytes N_ens st =
     (if N st < N_ens
      then (case loop_body bytes st of
              Break \<Rightarrow> Some (Inr st)
            | Raise e \<Rightarrow> Some (Inl e)
            | Next st' \<Rightarrow> scan_loop bytes N_ens st')
      else Some (Inr st))"

declare scan_loop.simps [code]

definition init_state :: scan_state where
  "init_state = \<lparr>fin = 0, fout = [], N = 0, last_ens = - 1\<rparr>"

text \<open>
  \<open>create_index_slow(infile, outfile, N_ens)\<close>: \<open>infile\<close> is given by its bytes,
  the result is what \<open>outfile\<close> holds when the function returns.
\<close>

definition create_index_slow :: "byte list \<Rightarrow> int \<Rightarrow> (error + index_entry list) option" where
  "create_index_slow infile N_ens =
     map_option (map_sum id fout) (scan_loop infile N_ens init_state)"

text \<open>\<open>get_index\<close> with no index file beside the input (or \<open>reload\<close> set).\<close>

definition get_index :: "byte list \<Rightarrow> (error + index_entry list) option" where
  "get_index infile = create_index_slow infile (2 ^ 32)"

subsection \<open>Properties of an input file and of an index\<close>

text \<open>
  Every header that the scan reads, from offset \<open>p\<close> on, has a size field below
  \<open>0x8000\<close>: a size from 0 to 32767, which reads the same as a signed and as an
  unsigned 16-bit integer.
\<close>

function small_sizes :: "byte list \<Rightarrow> int \<Rightarrow> bool" where
  "small_sizes bytes p =
     (case hdr_unpack (fin_read bytes p 10) of
        None \<Rightarrow> True
      | Some dat \<Rightarrow>
          if 0 \<le> dat4 dat then small_sizes bytes (p + 10 + dat4 dat) else False)"
  by pat_completeness auto
termination
  by (relation "measure (\<lambda>(bytes, p). nat (int (length bytes) - p))")
     (auto simp: hdr_unpack_def fin_read_def split: if_splits)

declare small_sizes.simps [simp del]

text \<open>Adjacent entries have strictly increasing offsets; adjacent entries have
  non-decreasing ensemble numbers.\<close>

definition offsets_increasing :: "index_entry list \<Rightarrow> bool" where
  "offsets_increasing index = list_all (\<lambda>(a, b). pos a < pos b) (zip index (tl index))"

definition ensembles_nondecreasing :: "index_entry list \<Rightarrow> bool" where
  "ensembles_nondecreasing index = list_all (\<lambda>(a, b). ens a \<le> ens b) (zip index (tl index))"

subsection \<open>\<open>index2ens_pos\<close>\<close>

text \<open>\<open>np.diff\<close> of a one-dimensional array of unsigned 64-bit integers.\<close>

definition np_diff :: "64 word list \<Rightarrow> 64 word list" where
  "np_diff xs = map (\<lambda>(a, b). b - a) (zip xs (tl xs))"

definition index2ens_pos :: "index_entry list \<Rightarrow> 64 word list" where
  "index2ens_pos index =
     (let dens0 = replicate (length index) True;
          dens = take 1 dens0 @ map (\<lambda>d. d \<noteq> 0) (np_diff (map ens index))
      in map snd (filter fst (zip dens (map pos index))))"

text \<open>
  What the specification says of it: the offset of the first entry that bears each
  distinct ensemble number, in the order of the index. \<open>seen\<close> holds the ensemble
  numbers met so far.
\<close>

fun first_offsets :: "64 word list \<Rightarrow> index_entry list \<Rightarrow> 64 word list" where
  "first_offsets seen [] = []"
| "first_offsets seen (e # es) =
     (if ens e \<in> set seen then first_offsets seen es
      else pos e # first_offsets (ens e # seen) es)"

text \<open>
  The scenario of the specification, as the code reads a file: a velocity record at
  offset 0 whose declared size leads to offset 40, a velocity record at offset 40, and
  no further header after it; the two records carry the same configuration bits, and
  the ensemble counters that the code reads for them (at offset 82 of each record)
  are \<open>c1\<close> and \<open>c2\<close>.
\<close>

definition two_record_stream :: "byte list \<Rightarrow> int \<Rightarrow> int \<Rightarrow> bool" where
  "two_record_stream bytes c1 c2 =
     (case hdr_unpack (fin_read bytes 0 10) of None \<Rightarrow> False | Some h1 \<Rightarrow>
      case read_fields bytes 10 of Inl _ \<Rightarrow> False | Inr f1 \<Rightarrow>
      case hdr_unpack (fin_read bytes 40 10) of None \<Rightarrow> False | Some h2 \<Rightarrow>
      case read_fields bytes 50 of Inl _ \<Rightarrow> False | Inr f2 \<Rightarrow>
        dat2 h1 = 21 \<and> dat4 h1 = 30 \<and> f_ens f1 = c1 \<and>
        dat2 h2 = 21 \<and> f_ens f2 = c2 \<and> f_config f1 = f_config f2 \<and>
        0 \<le> 50 + dat4 h2 \<and> hdr_unpack (fin_read bytes (50 + dat4 h2) 10) = None)"

subsection \<open>\<open>calc_config\<close>\<close>

text \<open>\<open>getbit(val, n)\<close>: \<open>bool((val >> n) & 1)\<close>.\<close>

definition getbit :: "16 word \<Rightarrow> nat \<Rightarrow> bool" where
  "getbit val n = ((drop_bit n val AND 1) \<noteq> 0)"

text \<open>
  The values of the dictionaries that \<open>calc_config\<close> builds, and a dictionary with
  string keys as a map.
\<close>

datatype cval = CBool bool | CInt "16 word" | CStr string | CNone

type_synonym cdict = "string \<rightharpoonup> cval"

definition headconfig_int2dict :: "16 word \<Rightarrow> cdict" where
  "headconfig_int2dict val = map_of
     [(''press_valid'', CBool (getbit val 0)),
      (''temp_valid'', CBool (getbit val 1)),
      (''compass_valid'', CBool (getbit val 2)),
      (''tilt_valid'', CBool (getbit val 3)),
      (''vel'', CBool (getbit val 5)),
      (''amp'', CBool (getbit val 6)),
      (''corr'', CBool (getbit val 7)),
      (''alt'', CBool (getbit val 8)),
      (''alt_raw'', CBool (getbit val 9)),
      (''ast'', CBool (getbit val 10)),
      (''echo'', CBool (getbit val 11)),
      (''ahrs'', CBool (getbit val 12)),
      (''p_gd'', CBool (getbit val 13)),
      (''std'', CBool (getbit val 14))]"

definition beams_cy_int2dict :: "16 word \<Rightarrow> 16 word \<Rightarrow> cdict" where
  "beams_cy_int2dict val i =
     (if i = 28 then map_of [(''ncells'', CInt val)]
      else map_of
        [(''ncells'', CInt (val AND (2 ^ 10 - 1))),
         (''cy'', [CStr ''ENU'', CStr ''XYZ'', CStr ''BEAM'', CNone]
                   ! unat (drop_bit 10 val AND 3)),
         (''nbeams'', CInt (drop_bit 12 val))])"

text \<open>\<open>isuniform(vec)\<close>: \<open>np.all(vec == vec[0])\<close>; \<open>vec[0]\<close> raises on an empty
  array.\<close>

definition isuniform :: "16 word list \<Rightarrow> error + bool" where
  "isuniform vec =
     (case vec of [] \<Rightarrow> Inl IndexError | v0 # _ \<Rightarrow> Inr (list_all (\<lambda>x. x = v0) vec))"

text \<open>
  The dictionary stored under one record id once its values are known to be uniform
  (lines 210 to 214): the decoded flags, updated with the decoded beams and cell
  counts, the two raw values added and \<open>cy\<close> removed.
\<close>

definition config_of :: "16 word \<Rightarrow> 16 word \<Rightarrow> 16 word \<Rightarrow> cdict" where
  "config_of i c0 b0 =
     ((headconfig_int2dict c0 ++ beams_cy_int2dict b0 i)
        (''_config'' \<mapsto> CInt c0, ''_beams_cy'' \<mapsto> CInt b0)) (''cy'' := None)"

text \<open>The loop \<open>for id in ids\<close> of \<open>calc_config\<close>, on the ids still to visit.\<close>

fun calc_config_ids ::
  "index_entry list \<Rightarrow> 16 word list \<Rightarrow> (16 word \<rightharpoonup> cdict) \<Rightarrow> error + (16 word \<rightharpoonup> cdict)" where
  "calc_config_ids index [] cfg = Inr cfg"
| "calc_config_ids index (i # ids) cfg =
     (if i \<notin> set [21, 24, 26] then calc_config_ids index ids cfg
      else
        let inds = filter (\<lambda>e. ID e = i) index;
            c_vec = map config inds;
            b_vec = map beams_cy inds
        in (case isuniform c_vec of
              Inl e \<Rightarrow> Inl e
            | Inr uc \<Rightarrow>
                if \<not> uc then Inl (ConfigNotIdentical i)
                else (case isuniform b_vec of
                        Inl e \<Rightarrow> Inl e
                      | Inr ub \<Rightarrow>
                          if \<not> ub then Inl (BeamsCyNotIdentical i)
                          else calc_config_ids index ids
                                 (cfg(i \<mapsto> config_of i (c_vec ! 0) (b_vec ! 0))))))"

text \<open>\<open>np.unique\<close>: the distinct values, sorted.\<close>

definition np_unique :: "16 word list \<Rightarrow> 16 word list" where
  "np_unique xs = sort (remdups xs)"

definition calc_config :: "index_entry list \<Rightarrow> error + (16 word \<rightharpoonup> cdict)" where
  "calc_config index = calc_config_ids index (np_unique (map ID index)) Map.empty"

text \<open>The record id that an error of \<open>calc_config\<close> names in its message.\<close>

fun named_id :: "error \<Rightarrow> 16 word option" where
  "named_id (ConfigNotIdentical i) = Some i"
| "named_id (BeamsCyNotIdentical i) = Some i"
| "named_id _ = None"

subsection \<open>Test vectors\<close>

text \<open>
  A record of 86 bytes: the header (sync byte, header size 10, \<open>ID\<close>, family, data
  size 76, two checksums), then 76 bytes of data, all zero but the ensemble counter
  \<open>c\<close> in the last four.
\<close>

definition test_record :: "byte \<Rightarrow> byte \<Rightarrow> byte list" where
  "test_record i c = [0xA5, 10, i, 0x10, 76, 0, 0, 0, 0, 0] @ replicate 72 0 @ [c, 0, 0, 0]"

text \<open>
  Three headers and 76 bytes of zeros. The first record (id 0, size 10) is skipped, the
  cursor going to offset 20; the record there (id 21) declares the size \<open>-20\<close>, which
  sends the cursor back to offset 10; the record there (id 21) declares the size 1000,
  beyond the end of the file.
\<close>

definition backward_stream :: "byte list" where
  "backward_stream =
     [0xA5, 10, 0, 0x10, 10, 0, 0, 0, 0, 0] @
     [0xA5, 10, 21, 0x10, 0xE8, 0x03, 0, 0, 0, 0] @
     [0xA5, 10, 21, 0x10, 0xEC, 0xFF, 0, 0, 0, 0] @ replicate 76 0"

text \<open>A velocity record that declares the size 0, followed by 76 bytes of zeros.\<close>

definition zero_size_stream :: "byte list" where
  "zero_size_stream = [0xA5, 10, 21, 0x10, 0, 0, 0, 0, 0, 0] @ replicate 76 0"

text \<open>
  A file of 126 bytes: a velocity header that declares 30 bytes of data, 30 zeros, a
  velocity header that declares 76 bytes of data, and these 76 bytes. The ensemble
  counter read for the first record (bytes 82 to 85) is 5, the one read for the second
  (bytes 122 to 125) is \<open>c\<close>.
\<close>

definition two_record_test :: "byte \<Rightarrow> byte list" where
  "two_record_test c =
     [0xA5, 10, 21, 0x10, 30, 0, 0, 0, 0, 0] @ replicate 30 0 @
     [0xA5, 10, 21, 0x10, 76, 0, 0, 0, 0, 0] @ replicate 32 0 @ [5, 0, 0, 0] @
     replicate 36 0 @ [c, 0, 0, 0]"

text \<open>The entry that the build writes for a test record at offset \<open>p\<close>, with
  ensemble number \<open>n\<close>.\<close>

definition test_entry :: "64 word \<Rightarrow> 64 word \<Rightarrow> index_entry" where
  "test_entry n p =
     \<lparr>ens = n, pos = p, ID = 21, config = 0, beams_cy = 0, blank = 0, year = 0, month = 0,
      day = 0, hour = 0, minute = 0, second = 0, usec100 = 0\<rparr>"

section \<open>Rotations of an ADV data set (dolfyn/adv/rotate.py)\<close>

text \<open>
  The numbers of a data set are real numbers and its arrays are lists, one element
  for each sample; a list of one element also stands for a scalar, which numpy
  broadcasts in the same way. Arithmetic is exact; the conversion
  \<open>astype('single')\<close> is the parameter \<open>single\<close> of each function that converts.
\<close>

datatype pval = PNum real | PStr string

record adv_data =
  u :: "real list"
  v :: "real list"
  w :: "real list"
  u_inst :: "real list option"
  v_inst :: "real list option"
  w_inst :: "real list option"
  roll :: "real list"
  pitch :: "real list"
  heading :: "real list"
  principal_angle :: real
  props :: "string \<rightharpoonup> pval"
  config_orientation :: string
  config_coordinate_system :: string

text \<open>
  Modelled from the spec: \<open>U_rot\<close>, a method of the data set's class, which is not
  under src/. The specification of \<open>earth_to_principal\<close> has it: (u, v) is taken as
  the complex number u + iv and multiplied by the unit phasor of the angle.
\<close>

definition U_rot :: "'a adv_data_scheme \<Rightarrow> real \<Rightarrow> complex list" where
  "U_rot advo angle = map (\<lambda>(x, y). Complex x y * cis angle) (zip (u advo) (v advo))"

definition earth2principal ::
  "(real \<Rightarrow> real) \<Rightarrow> 'a adv_data_scheme \<Rightarrow> error + 'a adv_data_scheme" where
  "earth2principal single advo =
     (case props advo ''coord_sys'' of
        None \<Rightarrow> Inl (KeyError ''coord_sys'')
      | Some c \<Rightarrow>
          if c = PStr ''principal'' then Inr advo
          else
            let tmp = U_rot advo (- principal_angle advo)
            in Inr (advo\<lparr>u := map (\<lambda>z. single (Re z)) tmp,
                         v := map (\<lambda>z. single (Im z)) tmp,
                         props := (props advo)(''coord_sys'' \<mapsto> PStr ''principal'')\<rparr>))"

definition principal2earth :: "(real \<Rightarrow> real) \<Rightarrow> 'a adv_data_scheme \<Rightarrow> 'a adv_data_scheme" where
  "principal2earth single advo =
     (let tmp = U_rot advo (principal_angle advo)
      in advo\<lparr>u := map (\<lambda>z. single (Re z)) tmp,
               v := map (\<lambda>z. single (Im z)) tmp,
               props := (props advo)(''coord_sys'' \<mapsto> PStr ''earth'')\<rparr>)"

subsection \<open>\<open>inst2earth\<close>\<close>

datatype warning = NoDeclination

text \<open>\<open>np.angle(np.exp(1j*x).mean())\<close>; the mean of an empty array (numpy's nan) is
  not modelled.\<close>

definition circ_mean :: "real list \<Rightarrow> real" where
  "circ_mean xs = Arg (sum_list (map cis xs) / of_nat (length xs))"

text \<open>\<open>advo.props[k]*np.pi/180\<close> when \<open>advo.props.has_key(k)\<close>; a string cannot be
  multiplied by a float.\<close>

definition prop_radians :: "(string \<rightharpoonup> pval) \<Rightarrow> string \<Rightarrow> error + real option" where
  "prop_radians ps k =
     (case ps k of
        None \<Rightarrow> Inr None
      | Some (PNum d) \<Rightarrow> Inr (Some (d * pi / 180))
      | Some (PStr s) \<Rightarrow> Inl TypeError)"

text \<open>
  numpy's elementwise operation on two one-dimensional arrays: arrays of equal length
  go element by element, an array of one element (or a scalar) is stretched to the
  length of the other, and any other pair of lengths raises \<open>ValueError\<close>.
\<close>

definition bop :: "(real \<Rightarrow> real \<Rightarrow> real) \<Rightarrow> real list \<Rightarrow> real list \<Rightarrow> error + real list" where
  "bop f xs ys =
     (if length xs = length ys then Inr (map2 f xs ys)
      else if length xs = 1 then Inr (map (f (hd xs)) ys)
      else if length ys = 1 then Inr (map (\<lambda>x. f x (hd ys)) xs)
      else Inl ValueError)"

text \<open>
  A binary operation inside an expression: Python evaluates the left operand, then the
  right operand, then applies the operation; the first exception ends the evaluation.
\<close>

definition arr_op ::
  "(real \<Rightarrow> real \<Rightarrow> real) \<Rightarrow> error + real list \<Rightarrow> error + real list \<Rightarrow> error + real list" where
  "arr_op f ea eb =
     (case ea of
        Inl e \<Rightarrow> Inl e
      | Inr a \<Rightarrow> (case eb of Inl e \<Rightarrow> Inl e | Inr b \<Rightarrow> bop f a b))"

definition np_mul :: "error + real list \<Rightarrow> error + real list \<Rightarrow> error + real list" where
  "np_mul ea eb = arr_op (*) ea eb"

definition np_add :: "error + real list \<Rightarrow> error + real list \<Rightarrow> error + real list" where
  "np_add ea eb = arr_op (+) ea eb"

definition np_sub :: "error + real list \<Rightarrow> error + real list \<Rightarrow> error + real list" where
  "np_sub ea eb = arr_op (-) ea eb"

text \<open>An attribute that \<open>hasattr\<close> may find missing; reading it then raises.\<close>

definition getattr :: "string \<Rightarrow> 'a option \<Rightarrow> error + 'a" where
  "getattr name x = (case x of None \<Rightarrow> Inl (AttributeError name) | Some y \<Rightarrow> Inr y)"

text \<open>
  Lines 205 to 218: the three components in the earth frame. Each of the three
  expressions is evaluated as Python evaluates it, operand by operand from the left,
  so that \<open>ch*cp\<close> is computed before \<open>advo.u_inst\<close> is read; \<open>u\<close> is computed
  before \<open>v\<close>, and \<open>v\<close> before \<open>w\<close>. The arguments \<open>ui\<close>, \<open>vi\<close>, \<open>wi\<close> are the
  attributes \<open>u_inst\<close>, \<open>v_inst\<close>, \<open>w_inst\<close> of the data set.
\<close>

definition rotate_uvw ::
  "(real \<Rightarrow> real) \<Rightarrow> real list \<Rightarrow> real list \<Rightarrow> real list \<Rightarrow>
     real list option \<Rightarrow> real list option \<Rightarrow> real list option \<Rightarrow>
     error + (real list \<times> real list \<times> real list)" where
  "rotate_uvw single hh pp rr ui vi wi =
     (let ch = Inr (map cos hh); sh = Inr (map sin hh);
          cp = Inr (map cos pp); sp = Inr (map sin pp);
          cr = Inr (map cos rr); sr = Inr (map sin rr);
          nch = Inr (map (\<lambda>x. - cos x) hh); nsh = Inr (map (\<lambda>x. - sin x) hh);
          u_i = getattr ''u_inst'' ui; v_i = getattr ''v_inst'' vi; w_i = getattr ''w_inst'' wi
      in case np_add
               (np_add (np_mul (np_mul ch cp) u_i)
                       (np_mul (np_add (np_mul (np_mul nch sp) sr) (np_mul sh cr)) v_i))
               (np_mul (np_sub (np_mul (np_mul nch cr) sp) (np_mul sh sr)) w_i) of
           Inl e \<Rightarrow> Inl e
         | Inr u' \<Rightarrow>
        (case np_add
               (np_add (np_mul (np_mul nsh cp) u_i)
                       (np_mul (np_add (np_mul (np_mul sh sp) sr) (np_mul ch cr)) v_i))
               (np_mul (np_sub (np_mul (np_mul sh cr) sp) (np_mul ch sr)) w_i) of
           Inl e \<Rightarrow> Inl e
         | Inr v' \<Rightarrow>
        (case np_add
               (np_add (np_mul sp u_i) (np_mul (np_mul sr cp) v_i))
               (np_mul (np_mul cp cr) w_i) of
           Inl e \<Rightarrow> Inl e
         | Inr w' \<Rightarrow> Inr (map single u', map single v', map single w'))))"

text \<open>
  What a call leaves behind: the exception that left it, if any, the data set as the
  call left it (the call changes it in place, also when it raises), and the warnings
  it issued, in order.
\<close>

record 'a call_result =
  raised :: "error option"
  dataset :: 'a
  warned :: "warning list"

text \<open>
  Lines 190 to 221: the instrument-frame velocity is kept as \<open>u_inst\<close>, \<open>v_inst\<close>,
  \<open>w_inst\<close> when the data are in the XYZ frame and have no \<open>u_inst\<close> yet; the
  rotated velocity is stored as \<open>u\<close>, \<open>v\<close>, \<open>w\<close>, and the data set is tagged. An
  exception on lines 216 to 218 leaves the data set with the attributes saved so far.
  (\<open>add_data\<close> is not under src/; it is taken as the assignment of the attribute.)
\<close>

definition save_inst :: "'a adv_data_scheme \<Rightarrow> 'a adv_data_scheme" where
  "save_inst advo =
     (if config_coordinate_system advo = ''XYZ'' \<and> u_inst advo = None
      then advo\<lparr>u_inst := Some (u advo), v_inst := Some (v advo), w_inst := Some (w advo)\<rparr>
      else advo)"

definition store_rotated ::
  "(real \<Rightarrow> real) \<Rightarrow> 'a adv_data_scheme \<Rightarrow> warning list \<Rightarrow> real list \<Rightarrow> real list \<Rightarrow> real list \<Rightarrow>
     'a adv_data_scheme call_result" where
  "store_rotated single advo warnings hh pp rr =
     (let advo1 = save_inst advo
      in case rotate_uvw single hh pp rr (u_inst advo1) (v_inst advo1) (w_inst advo1) of
           Inl e \<Rightarrow> \<lparr>raised = Some e, dataset = advo1, warned = warnings\<rparr>
         | Inr (u', v', w') \<Rightarrow>
             \<lparr>raised = None,
              dataset = advo1\<lparr>u := u', v := v', w := w',
                               props := (props advo1)(''coord_sys'' \<mapsto> PStr ''earth'')\<rparr>,
              warned = warnings\<rparr>)"

text \<open>
  Lines 163 to 169 of \<open>inst2earth\<close>: roll, pitch and heading in radians (\<open>rr\<close>,
  \<open>pp\<close>, \<open>hh\<close>), the heading counted from the east; with \<open>use_mean_rotation\<close>
  each is replaced by its mean, a scalar.
\<close>

definition angles_rad :: "'a adv_data_scheme \<Rightarrow> bool \<Rightarrow> real list \<times> real list \<times> real list" where
  "angles_rad advo use_mean_rotation =
     (let rr = map (\<lambda>x. x * pi / 180) (roll advo);
          pp = map (\<lambda>x. x * pi / 180) (pitch advo);
          hh = map (\<lambda>x. (x - 90) * pi / 180) (heading advo)
      in if use_mean_rotation then ([circ_mean rr], [circ_mean pp], [circ_mean hh])
         else (rr, pp, hh))"

text \<open>\<open>hh += d\<close> under \<open>has_key\<close>: nothing is added when the key is missing.\<close>

definition add_angle :: "real option \<Rightarrow> real list \<Rightarrow> real list" where
  "add_angle d hh = (case d of Some x \<Rightarrow> map (\<lambda>y. y + x) hh | None \<Rightarrow> hh)"

text \<open>Lines 176 to 181: \<open>rr += np.pi\<close> when the orientation is \<open>'down'\<close>.\<close>

definition roll_down :: "'a adv_data_scheme \<Rightarrow> real list \<Rightarrow> real list" where
  "roll_down advo rr = (if config_orientation advo = ''down'' then map (\<lambda>x. x + pi) rr else rr)"

text \<open>
  \<open>inst2earth(advo, use_mean_rotation)\<close>. The declination and the heading offset are
  added to the heading when \<open>advo.props\<close> has them (lines 170 to 175), and only a
  missing declination is warned about. The warning has been issued when a later line
  raises.
\<close>

definition inst2earth ::
  "(real \<Rightarrow> real) \<Rightarrow> 'a adv_data_scheme \<Rightarrow> bool \<Rightarrow> 'a adv_data_scheme call_result" where
  "inst2earth single advo use_mean_rotation =
     (case angles_rad advo use_mean_rotation of (rr, pp, hh) \<Rightarrow>
      case prop_radians (props advo) ''declination'' of
        Inl e \<Rightarrow> \<lparr>raised = Some e, dataset = advo, warned = []\<rparr>
      | Inr decl \<Rightarrow>
          let warnings = (case decl of Some d \<Rightarrow> [] | None \<Rightarrow> [NoDeclination])
          in case prop_radians (props advo) ''heading_offset'' of
               Inl e \<Rightarrow> \<lparr>raised = Some e, dataset = advo, warned = warnings\<rparr>
             | Inr offs \<Rightarrow>
                 store_rotated single advo warnings (add_angle offs (add_angle decl hh)) pp
                   (roll_down advo rr))"

text \<open>
  A data set of one sample in the earth frame, with a declination and no heading
  offset.
\<close>

definition adv_example :: adv_data where
  "adv_example =
     \<lparr>u = [1], v = [0], w = [2], u_inst = None, v_inst = None, w_inst = None,
      roll = [0], pitch = [0], heading = [90], principal_angle = pi,
      props = [''declination'' \<mapsto> PNum 0, ''coord_sys'' \<mapsto> PStr ''earth''],
      config_orientation = ''up'', config_coordinate_system = ''XYZ''\<rparr>"

subsection \<open>Motion correction (\<open>calcAccelVel\<close>, \<open>calcRotationVel\<close>, \<open>correct_motion\<close>)\<close>

text \<open>
  A one-dimensional array is the list of its elements, a two-dimensional array the list
  of its rows, a three-dimensional array the list of its matrices; the rows of an array
  have one length, and an array without rows is the empty list. \<open>dim2\<close> and \<open>dim3\<close>
  are the lengths of the second and of the third axis.
\<close>

type_synonym vec = "real list"
type_synonym mat = "real list list"
type_synonym ten = "real list list list"

definition dim2 :: "'a list list \<Rightarrow> nat" where
  "dim2 m = (case m of [] \<Rightarrow> 0 | r # rs \<Rightarrow> length r)"

definition dim3 :: "'a list list list \<Rightarrow> nat" where
  "dim3 t = (case t of [] \<Rightarrow> 0 | m # ms \<Rightarrow> dim2 m)"

text \<open>
  The element of an array at an index. The functions below read elements inside the
  array only; outside it the value is 0.
\<close>

definition at1 :: "vec \<Rightarrow> nat \<Rightarrow> real" where
  "at1 xs i = (if i < length xs then xs ! i else 0)"

definition at2 :: "mat \<Rightarrow> nat \<Rightarrow> nat \<Rightarrow> real" where
  "at2 m i j = (if i < length m then at1 (m ! i) j else 0)"

definition at3 :: "ten \<Rightarrow> nat \<Rightarrow> nat \<Rightarrow> nat \<Rightarrow> real" where
  "at3 t i j k = (if i < length t then at2 (t ! i) j k else 0)"

text \<open>
  numpy's broadcasting: the common length of two axes (one of them may have the length
  1), and the index into an axis of length \<open>n\<close> that is stretched.
\<close>

definition bsize :: "nat \<Rightarrow> nat \<Rightarrow> error + nat" where
  "bsize a b =
     (if a = b then Inr a else if a = 1 then Inr b else if b = 1 then Inr a
      else Inl ValueError)"

definition bidx :: "nat \<Rightarrow> nat \<Rightarrow> nat" where
  "bidx n i = (if n = 1 then 0 else i)"

text \<open>The results of a sequence of evaluations: the first exception, or all values.\<close>

fun seq_results :: "(error + 'a) list \<Rightarrow> error + 'a list" where
  "seq_results [] = Inr []"
| "seq_results (Inl e # rs) = Inl e"
| "seq_results (Inr x # rs) = (case seq_results rs of Inl e \<Rightarrow> Inl e | Inr xs \<Rightarrow> Inr (x # xs))"

text \<open>An elementwise operation on two two-dimensional arrays, with broadcasting.\<close>

definition bop2 :: "(real \<Rightarrow> real \<Rightarrow> real) \<Rightarrow> mat \<Rightarrow> mat \<Rightarrow> error + mat" where
  "bop2 f a b =
     (if length a = length b then seq_results (map2 (bop f) a b)
      else if length a = 1 then seq_results (map (bop f (hd a)) b)
      else if length b = 1 then seq_results (map (\<lambda>r. bop f r (hd b)) a)
      else Inl ValueError)"

text \<open>\<open>a.T\<close> of a two-dimensional array.\<close>

definition mat_T :: "mat \<Rightarrow> mat" where
  "mat_T m = map (\<lambda>j. map (\<lambda>i. at2 m i j) [0..<length m]) [0..<dim2 m]"

text \<open>
  \<open>np.dot(a, b)\<close> of a two-dimensional array with a two-dimensional and with a
  one-dimensional array: the last axis of \<open>a\<close> and the first axis of \<open>b\<close> must have
  the same length.
\<close>

definition np_dot :: "mat \<Rightarrow> mat \<Rightarrow> error + mat" where
  "np_dot a b =
     (if dim2 a = length b
      then Inr (map (\<lambda>i. map (\<lambda>j. \<Sum>k\<leftarrow>[0..<length b]. at2 a i k * at2 b k j) [0..<dim2 b])
                  [0..<length a])
      else Inl ValueError)"

definition np_dot_vec :: "mat \<Rightarrow> vec \<Rightarrow> error + vec" where
  "np_dot_vec a b =
     (if dim2 a = length b
      then Inr (map (\<lambda>i. \<Sum>k\<leftarrow>[0..<length b]. at2 a i k * at1 b k) [0..<length a])
      else Inl ValueError)"

text \<open>
  \<open>np.einsum\<close> with the four subscripts that the code uses. Axes with the same label
  must have the same length, or the length 1. In \<open>einsum_diag\<close> the second operand is
  \<open>np.diagonal(x)\<close> of a three-dimensional array \<open>x\<close>: the array of the shape
  (\<open>dim3 x\<close>, the smaller of the first two axes) whose element \<open>[l, d]\<close> is
  \<open>x[d, d, l]\<close>.
\<close>

definition einsum_ijk_ik :: "ten \<Rightarrow> mat \<Rightarrow> error + mat" where
  "einsum_ijk_ik a b =
     (case bsize (length a) (length b) of
        Inl e \<Rightarrow> Inl e
      | Inr ni \<Rightarrow>
     (case bsize (dim3 a) (dim2 b) of
        Inl e \<Rightarrow> Inl e
      | Inr nk \<Rightarrow>
          Inr (map (\<lambda>j. map (\<lambda>k. \<Sum>i\<leftarrow>[0..<ni].
                         at3 a (bidx (length a) i) j (bidx (dim3 a) k) *
                         at2 b (bidx (length b) i) (bidx (dim2 b) k)) [0..<nk])
                 [0..<dim2 a])))"

definition einsum_ijk_jk :: "ten \<Rightarrow> mat \<Rightarrow> error + mat" where
  "einsum_ijk_jk a b =
     (case bsize (dim2 a) (length b) of
        Inl e \<Rightarrow> Inl e
      | Inr nj \<Rightarrow>
     (case bsize (dim3 a) (dim2 b) of
        Inl e \<Rightarrow> Inl e
      | Inr nk \<Rightarrow>
          Inr (map (\<lambda>i. map (\<lambda>k. \<Sum>j\<leftarrow>[0..<nj].
                         at3 a i (bidx (dim2 a) j) (bidx (dim3 a) k) *
                         at2 b (bidx (length b) j) (bidx (dim2 b) k)) [0..<nk])
                 [0..<length a])))"

definition einsum_ij_jkl :: "mat \<Rightarrow> ten \<Rightarrow> error + ten" where
  "einsum_ij_jkl a b =
     (case bsize (dim2 a) (length b) of
        Inl e \<Rightarrow> Inl e
      | Inr nj \<Rightarrow>
          Inr (map (\<lambda>i. map (\<lambda>k. map (\<lambda>l. \<Sum>j\<leftarrow>[0..<nj].
                         at2 a i (bidx (dim2 a) j) * at3 b (bidx (length b) j) k l)
                       [0..<dim3 b]) [0..<dim2 b])
                 [0..<length a]))"

definition einsum_diag :: "mat \<Rightarrow> ten \<Rightarrow> error + mat" where
  "einsum_diag a x =
     (case bsize (dim2 a) (min (length x) (dim2 x)) of
        Inl e \<Rightarrow> Inl e
      | Inr nj \<Rightarrow>
          Inr (map (\<lambda>i. map (\<lambda>k. \<Sum>j\<leftarrow>[0..<nj].
                         at2 a i (bidx (dim2 a) j) *
                         at3 x (bidx (min (length x) (dim2 x)) j)
                              (bidx (min (length x) (dim2 x)) j) k)
                       [0..<dim3 x])
                 [0..<length a]))"

text \<open>
  Modelled from the library documentation: \<open>scipy.integrate.cumtrapz(y, dx=dx)\<close>
  along the last axis, the cumulative sum of \<open>dx * (y[k + 1] + y[k]) / 2\<close>.
\<close>

fun cumsum_from :: "real \<Rightarrow> vec \<Rightarrow> vec" where
  "cumsum_from acc [] = []"
| "cumsum_from acc (x # xs) = (acc + x) # cumsum_from (acc + x) xs"

definition cumtrapz :: "real \<Rightarrow> vec \<Rightarrow> vec" where
  "cumtrapz dx y = cumsum_from 0 (map2 (\<lambda>a b. dx * (b + a) / 2) y (tl y))"

text \<open>
  The routines of scipy and numpy that are taken as parameters: \<open>scipy.signal.butter\<close>
  (order and cut-off to the two coefficient arrays), \<open>scipy.signal.filtfilt\<close> (the two
  coefficient arrays and a series to the filtered series) and \<open>np.linalg.inv\<close>. Each
  may raise.
\<close>

record library =
  butter :: "nat \<Rightarrow> real \<Rightarrow> error + (vec \<times> vec)"
  filtfilt :: "vec \<Rightarrow> vec \<Rightarrow> vec \<Rightarrow> error + vec"
  linalg_inv :: "mat \<Rightarrow> error + mat"

text \<open>
  \<open>a[idx] = r\<close> for a row of the length \<open>n\<close>: \<open>r\<close> must have that length, or the
  length 1.
\<close>

definition assign_row :: "nat \<Rightarrow> vec \<Rightarrow> error + vec" where
  "assign_row n r =
     (if length r = n then Inr r else if length r = 1 then Inr (replicate n (hd r))
      else Inl ValueError)"

text \<open>
  \<open>calcAccelVel(accel, samp_freq, filt_freq)\<close>. The loop of lines 25 and 26 replaces
  the rows of \<open>dat\<close> one after the other: \<open>highpass_rows\<close>.
\<close>

fun highpass_rows :: "library \<Rightarrow> vec \<times> vec \<Rightarrow> mat \<Rightarrow> error + mat" where
  "highpass_rows lib filt [] = Inr []"
| "highpass_rows lib filt (row # rows) =
     (case filtfilt lib (fst filt) (snd filt) row of
        Inl e \<Rightarrow> Inl e
      | Inr y \<Rightarrow>
     (case bop (-) row y of
        Inl e \<Rightarrow> Inl e
      | Inr d \<Rightarrow>
     (case assign_row (length row) d of
        Inl e \<Rightarrow> Inl e
      | Inr r \<Rightarrow>
     (case highpass_rows lib filt rows of
        Inl e \<Rightarrow> Inl e
      | Inr rs \<Rightarrow> Inr (r # rs)))))"

definition calcAccelVel :: "library \<Rightarrow> mat \<Rightarrow> real \<Rightarrow> real \<Rightarrow> error + mat" where
  "calcAccelVel lib accel samp_freq filt_freq =
     (if samp_freq / 2 = 0 then Inl ZeroDivisionError
      else
        case butter lib 2 (filt_freq / (samp_freq / 2)) of
          Inl e \<Rightarrow> Inl e
        | Inr filt \<Rightarrow>
            let hp = accel;
                dat = map (\<lambda>row. 0 # cumtrapz (1 / samp_freq) row) hp
            in case highpass_rows lib filt dat of
                 Inl e \<Rightarrow> Inl e
               | Inr dat' \<Rightarrow> Inr (map (map uminus) dat'))"

text \<open>
  \<open>calcRotationVel(AngRt, vec_imu2sample, transMat)\<close>. \<open>vec_imu2sample\<close> has one or
  two dimensions. \<open>outer x y\<close> is \<open>x[:,None]*y\<close>; the two products of a row of
  \<open>uerr\<close> have the same shape.
\<close>

datatype arr = A1 vec | A2 mat

definition outer :: "vec \<Rightarrow> vec \<Rightarrow> mat" where
  "outer x y = map (\<lambda>a. map (\<lambda>b. a * b) y) x"

definition sub2 :: "mat \<Rightarrow> mat \<Rightarrow> mat" where
  "sub2 a b = map2 (map2 (-)) a b"

definition calcRotationVel :: "library \<Rightarrow> mat \<Rightarrow> arr \<Rightarrow> mat option \<Rightarrow> error + mat" where
  "calcRotationVel lib AngRt vec_imu2sample transMat =
     (case (case vec_imu2sample of
              A1 xs \<Rightarrow> if length xs = 3 then Inr (map (\<lambda>x. [x]) xs) else Inl ValueError
            | A2 m \<Rightarrow> Inr m) of
        Inl e \<Rightarrow> Inl e
      | Inr vec \<Rightarrow>
          if length vec < 3 \<or> length AngRt < 3 then Inl IndexError
          else
            let uerr = map (map (map uminus))
                  [sub2 (outer (vec ! 2) (AngRt ! 1)) (outer (vec ! 1) (AngRt ! 2)),
                   sub2 (outer (vec ! 0) (AngRt ! 2)) (outer (vec ! 2) (AngRt ! 0)),
                   sub2 (outer (vec ! 1) (AngRt ! 0)) (outer (vec ! 0) (AngRt ! 1))]
            in case transMat of
                 Some T \<Rightarrow>
                   if dim2 uerr = 3 then
                     (case linalg_inv lib T of
                        Inl e \<Rightarrow> Inl e
                      | Inr Ti \<Rightarrow>
                          (case einsum_ij_jkl Ti uerr of
                             Inl e \<Rightarrow> Inl e
                           | Inr x \<Rightarrow> einsum_diag T x))
                   else if dim2 uerr = 0 then Inl IndexError
                   else Inr (map (\<lambda>m. m ! 0) uerr)
               | None \<Rightarrow>
                   if dim2 uerr = 0 then Inl IndexError else Inr (map (\<lambda>m. m ! 0) uerr))"

text \<open>
  The data set that \<open>correct_motion\<close> works on. \<open>vel_u\<close> is \<open>advo._u\<close>; \<open>urot\<close>,
  \<open>uacc\<close> and \<open>AccelStable\<close> are attributes that the call creates; the next five
  fields are the entries of \<open>advo.props\<close> that the code reads, \<open>TransMatrix\<close> is the
  entry of \<open>advo.config.head\<close>, each present or missing; \<open>orient_group\<close> is
  \<open>advo.groups['orient']\<close>, taken as a set of names (the class is not under src/).
  \<open>fs\<close> is a float.
\<close>

record motion_data =
  vel_u :: mat
  AngRt :: mat
  Accel :: mat
  orientmat :: ten
  fs :: real
  urot :: "mat option"
  uacc :: "mat option"
  AccelStable :: "mat option"
  rotate_vars :: "string list option"
  body2head_rotmat :: "mat option"
  body2head_vec :: "vec option"
  inst_make :: "string option"
  inst_model :: "string option"
  TransMatrix :: "mat option"
  orient_group :: "string set"

text \<open>The object \<open>correct_motion(accel_filtfreq, vel_filtfreq, separate_probes)\<close>.\<close>

record correct_motion =
  accelvel_filtfreq :: real
  accel_filtfreq :: real
  separate_probes :: bool

definition correct_motion_init :: "real \<Rightarrow> real \<Rightarrow> bool \<Rightarrow> correct_motion" where
  "correct_motion_init accel_filtfreq' vel_filtfreq' separate_probes' =
     \<lparr>accelvel_filtfreq = vel_filtfreq', accel_filtfreq = accel_filtfreq',
      separate_probes = separate_probes'\<rparr>"

text \<open>\<open>d[key]\<close> of a dictionary entry that may be missing.\<close>

definition getitem :: "string \<Rightarrow> 'a option \<Rightarrow> error + 'a" where
  "getitem key x = (case x of None \<Rightarrow> Inl (KeyError key) | Some y \<Rightarrow> Inr y)"

text \<open>
  A method changes the data set in place: its result is the exception that left it,
  if any, and the data set as it left it. \<open>assign s x k\<close> evaluates \<open>x\<close> and stores
  the value with \<open>k\<close>; \<open>and_then\<close> goes on to the next statement.
\<close>

definition assign :: "'s \<Rightarrow> error + 'a \<Rightarrow> ('a \<Rightarrow> 's) \<Rightarrow> error option \<times> 's" where
  "assign s x k = (case x of Inl e \<Rightarrow> (Some e, s) | Inr y \<Rightarrow> (None, k y))"

definition and_then :: "error option \<times> 's \<Rightarrow> ('s \<Rightarrow> error option \<times> 's) \<Rightarrow> error option \<times> 's" where
  "and_then r f = (case r of (None, s) \<Rightarrow> f s | (Some e, s) \<Rightarrow> (Some e, s))"

text \<open>\<open>_rotateVel2body\<close>.\<close>

definition cm_rotateVel2body ::
  "'a motion_data_scheme \<Rightarrow> error option \<times> 'a motion_data_scheme" where
  "cm_rotateVel2body advo =
     assign advo
       (case getitem ''body2head_rotmat'' (body2head_rotmat advo) of
          Inl e \<Rightarrow> Inl e
        | Inr R \<Rightarrow> np_dot (mat_T R) (vel_u advo))
       (\<lambda>x. advo\<lparr>vel_u := x\<rparr>)"

text \<open>\<open>_calcProbePos\<close>: the position of the sample volume, or of the three probes.\<close>

definition probe_positions :: mat where
  "probe_positions =
     (let r = 0.076; phi = - 30 * pi / 180; theta = map (\<lambda>x. x * pi / 180) [0, 120, 240]
      in [map (\<lambda>t. r * cos t) theta, map (\<lambda>t. r * sin t) theta,
          map (\<lambda>x. r * tan phi * x) [1, 1, 1]])"

definition cm_calcProbePos :: "correct_motion \<Rightarrow> 'a motion_data_scheme \<Rightarrow> error + arr" where
  "cm_calcProbePos self advo =
     (if inst_make advo = Some ''Nortek'' \<and> inst_model advo = Some ''VECTOR'' \<and>
         separate_probes self
      then
        (case getitem ''body2head_rotmat'' (body2head_rotmat advo) of
           Inl e \<Rightarrow> Inl e
         | Inr R \<Rightarrow>
        (case np_dot (mat_T R) probe_positions of
           Inl e \<Rightarrow> Inl e
         | Inr p \<Rightarrow>
        (case getitem ''body2head_vec'' (body2head_vec advo) of
           Inl e \<Rightarrow> Inl e
         | Inr bv \<Rightarrow> map_sum id A2 (bop2 (+) p (map (\<lambda>x. [x]) bv)))))
      else map_sum id A1 (getitem ''body2head_vec'' (body2head_vec advo)))"

text \<open>\<open>np.dot(R, pos)\<close> for a position of one or of two dimensions.\<close>

definition np_dot_arr :: "mat \<Rightarrow> arr \<Rightarrow> error + arr" where
  "np_dot_arr a p =
     (case p of A1 xs \<Rightarrow> map_sum id A1 (np_dot_vec a xs) | A2 m \<Rightarrow> map_sum id A2 (np_dot a m))"

text \<open>\<open>_calcRotVel\<close>.\<close>

definition cm_calcRotVel ::
  "library \<Rightarrow> correct_motion \<Rightarrow> 'a motion_data_scheme \<Rightarrow> error option \<times> 'a motion_data_scheme" where
  "cm_calcRotVel lib self advo =
     assign advo
       (case cm_calcProbePos self advo of
          Inl e \<Rightarrow> Inl e
        | Inr ppos \<Rightarrow>
            if separate_probes self then
              (case getitem ''body2head_rotmat'' (body2head_rotmat advo) of
                 Inl e \<Rightarrow> Inl e
               | Inr R \<Rightarrow>
              (case np_dot R (AngRt advo) of
                 Inl e \<Rightarrow> Inl e
               | Inr angrt \<Rightarrow>
              (case np_dot_arr R ppos of
                 Inl e \<Rightarrow> Inl e
               | Inr ppos' \<Rightarrow>
              (case calcRotationVel lib angrt ppos' (TransMatrix advo) of
                 Inl e \<Rightarrow> Inl e
               | Inr ue \<Rightarrow> np_dot (mat_T R) ue))))
            else calcRotationVel lib (AngRt advo) ppos None)
       (\<lambda>x. advo\<lparr>urot := Some x, orient_group := insert ''urot'' (orient_group advo)\<rparr>)"

text \<open>
  \<open>_calcAccelStable\<close>. The loop of lines 89 and 90 replaces the first three rows of
  \<open>acctmp\<close>, one after the other: \<open>lowpass_rows\<close>, from the row \<open>idx\<close> on.
\<close>

fun lowpass_rows :: "library \<Rightarrow> vec \<times> vec \<Rightarrow> nat \<Rightarrow> nat \<Rightarrow> mat \<Rightarrow> error + mat" where
  "lowpass_rows lib flt idx 0 acctmp = Inr acctmp"
| "lowpass_rows lib flt idx (Suc n) acctmp =
     (if length acctmp \<le> idx then Inl IndexError
      else
        case filtfilt lib (fst flt) (snd flt) (acctmp ! idx) of
          Inl e \<Rightarrow> Inl e
        | Inr y \<Rightarrow>
       (case assign_row (length (acctmp ! idx)) y of
          Inl e \<Rightarrow> Inl e
        | Inr r \<Rightarrow> lowpass_rows lib flt (Suc idx) n (acctmp[idx := r])))"

definition cm_calcAccelStable ::
  "library \<Rightarrow> correct_motion \<Rightarrow> 'a motion_data_scheme \<Rightarrow> error option \<times> 'a motion_data_scheme" where
  "cm_calcAccelStable lib self advo =
     assign advo
       (case einsum_ijk_ik (orientmat advo) (Accel advo) of
          Inl e \<Rightarrow> Inl e
        | Inr acctmp \<Rightarrow>
            if fs advo / 2 = 0 then Inl ZeroDivisionError
            else
              (case butter lib 1 (accel_filtfreq self / (fs advo / 2)) of
                 Inl e \<Rightarrow> Inl e
               | Inr flt \<Rightarrow>
              (case lowpass_rows lib flt 0 3 acctmp of
                 Inl e \<Rightarrow> Inl e
               | Inr acctmp' \<Rightarrow> einsum_ijk_jk (orientmat advo) acctmp')))
       (\<lambda>x. advo\<lparr>AccelStable := Some x,
                  orient_group := insert ''AccelStable'' (orient_group advo)\<rparr>)"

text \<open>\<open>_calcAccelVel\<close>.\<close>

definition cm_calcAccelVel ::
  "library \<Rightarrow> correct_motion \<Rightarrow> 'a motion_data_scheme \<Rightarrow> error option \<times> 'a motion_data_scheme" where
  "cm_calcAccelVel lib self advo =
     assign advo
       (case getattr ''AccelStable'' (AccelStable advo) of
          Inl e \<Rightarrow> Inl e
        | Inr astable \<Rightarrow>
       (case bop2 (-) (Accel advo) astable of
          Inl e \<Rightarrow> Inl e
        | Inr accel \<Rightarrow> calcAccelVel lib accel (fs advo) (accelvel_filtfreq self)))
       (\<lambda>x. advo\<lparr>uacc := Some x, orient_group := insert ''uacc'' (orient_group advo)\<rparr>)"

text \<open>
  \<open>advo._u -= (advo.urot + advo.uacc)\<close>: the subtraction in place needs the shape of
  \<open>advo._u\<close> for its result.
\<close>

definition cm_subtract ::
  "'a motion_data_scheme \<Rightarrow> error option \<times> 'a motion_data_scheme" where
  "cm_subtract advo =
     assign advo
       (case getattr ''urot'' (urot advo) of
          Inl e \<Rightarrow> Inl e
        | Inr ur \<Rightarrow>
       (case getattr ''uacc'' (uacc advo) of
          Inl e \<Rightarrow> Inl e
        | Inr ua \<Rightarrow>
       (case bop2 (+) ur ua of
          Inl e \<Rightarrow> Inl e
        | Inr s \<Rightarrow>
       (case bop2 (-) (vel_u advo) s of
          Inl e \<Rightarrow> Inl e
        | Inr d \<Rightarrow> if map length d = map length (vel_u advo) then Inr d else Inl ValueError))))
       (\<lambda>x. advo\<lparr>vel_u := x\<rparr>)"

text \<open>\<open>correct_motion.__call__(advo)\<close>.\<close>

definition cm_call ::
  "library \<Rightarrow> correct_motion \<Rightarrow> 'a motion_data_scheme \<Rightarrow> error option \<times> 'a motion_data_scheme" where
  "cm_call lib self advo =
     (let advo0 = advo\<lparr>rotate_vars :=
            (case rotate_vars advo of
               None \<Rightarrow> Some [''_u'', ''urot'', ''uacc'', ''Accel'', ''AccelStable'', ''AngRt'', ''Mag'']
             | Some vars \<Rightarrow> Some (vars @ [''urot'', ''uacc'', ''AccelStable'']))\<rparr>
      in and_then (and_then (and_then (and_then (cm_rotateVel2body advo0)
           (cm_calcRotVel lib self)) (cm_calcAccelStable lib self)) (cm_calcAccelVel lib self))
           cm_subtract)"

text \<open>
  Shapes of the arrays of a data set, and the array of zeros: \<open>is_mat r c m\<close> holds of
  an array \<open>m\<close> of the shape \<open>(r, c)\<close>, \<open>is_ten a b c t\<close> of an array of the shape
  \<open>(a, b, c)\<close>.
\<close>

definition is_mat :: "nat \<Rightarrow> nat \<Rightarrow> mat \<Rightarrow> bool" where
  "is_mat r c m = (length m = r \<and> list_all (\<lambda>row. length row = c) m)"

definition is_ten :: "nat \<Rightarrow> nat \<Rightarrow> nat \<Rightarrow> ten \<Rightarrow> bool" where
  "is_ten a b c t = (length t = a \<and> list_all (is_mat b c) t)"

definition zeros :: "nat \<Rightarrow> nat \<Rightarrow> mat" where
  "zeros r c = replicate r (replicate c 0)"

text \<open>
  Test vectors: a library whose filter halves every sample, and a data set of two
  samples at rest (a Nortek Vector with a transformation matrix).
\<close>

definition lib_example :: library where
  "lib_example =
     \<lparr>butter = (\<lambda>order wn. if 0 < wn \<and> wn < 1 then Inr ([1 / 2], [1]) else Inl ValueError),
      filtfilt = (\<lambda>b a x. Inr (map (\<lambda>y. y / 2) x)),
      linalg_inv = (\<lambda>m. if m = [[1, 0, 0], [0, 1, 0], [0, 0, 1]] then Inr m else Inl LinAlgError)\<rparr>"

definition motion_example :: motion_data where
  "motion_example =
     \<lparr>vel_u = [[1, 2], [3, 4], [5, 6]],
      AngRt = [[0, 0], [0, 0], [0, 0]],
      Accel = [[0, 0], [0, 0], [0, 0]],
      orientmat = [[[1, 1], [0, 0], [0, 0]], [[0, 0], [1, 1], [0, 0]], [[0, 0], [0, 0], [1, 1]]],
      fs = 32,
      urot = None, uacc = None, AccelStable = None,
      rotate_vars = None,
      body2head_rotmat = Some [[0, 1, 0], [- 1, 0, 0], [0, 0, 1]],
      body2head_vec = Some [1, 2, 3],
      inst_make = Some ''Nortek'', inst_model = Some ''VECTOR'',
      TransMatrix = Some [[1, 0, 0], [0, 1, 0], [0, 0, 1]],
      orient_group = {}\<rparr>"

section \<open>Properties of the index build\<close>

subsection \<open>One pass through the loop\<close>

lemma small_sizes_Some:
  assumes "small_sizes bytes p" and "hdr_unpack (fin_read bytes p 10) = Some dat"
  shows "0 \<le> dat4 dat" and "small_sizes bytes (p + 10 + dat4 dat)"
  using assms by (subst (asm) small_sizes.simps, simp split: if_splits)+

lemma hdr_unpack_Some_length:
  "hdr_unpack (fin_read bytes p 10) = Some dat \<Longrightarrow> int (length bytes) - p \<ge> 10"
  by (auto simp: hdr_unpack_def fin_read_def split: if_splits)

lemma read_fields_error: "read_fields bytes p = Inl e \<Longrightarrow> e = StructError"
  by (auto simp: read_fields_def unpack_H_def unpack_I_def unpack_6BH_def
      split: sum.splits if_splits)

lemma read_fields_Inr:
  assumes "0 \<le> q" and "q + 76 \<le> int (length bytes)"
  shows "\<exists>f. read_fields bytes q = Inr f"
proof -
  from assms have "nat (q + 2) + 2 \<le> length bytes" "nat (q + 8) + 8 \<le> length bytes"
    "nat (q + 30) + 2 \<le> length bytes" "nat (q + 72) + 4 \<le> length bytes"
    by linarith+
  then show ?thesis
    by (simp add: read_fields_def unpack_H_def unpack_I_def unpack_6BH_def fin_read_def)
qed

lemma read_fields_Inl:
  assumes "0 \<le> q" and "read_fields bytes q = Inl e"
  shows "int (length bytes) < q + 76"
proof (rule ccontr)
  assume "\<not> int (length bytes) < q + 76"
  with assms(1) have "\<exists>f. read_fields bytes q = Inr f" by (intro read_fields_Inr) simp_all
  with assms(2) show False by simp
qed

lemma read_fields_short:
  assumes "0 \<le> q" and "int (length bytes) < q + 76"
  shows "read_fields bytes q = Inl StructError"
proof -
  from assms have "\<not> nat (q + 72) + 4 \<le> length bytes" by linarith
  then have "length (fin_read bytes (q + 2 + 2 + 4 + 8 + 14 + 2 + 40) 4) \<noteq> 4"
    by (simp add: fin_read_def)
  then show ?thesis
    by (simp add: read_fields_def unpack_H_def unpack_I_def unpack_6BH_def split: sum.splits)
qed

lemma pack_entry_error: "pack_entry n p i f = Inl e \<Longrightarrow> e = StructError"
  by (auto simp: pack_entry_def split: if_splits)

lemma pack_entry_Inr:
  "pack_entry n p i f = Inr e \<Longrightarrow> uint (ens e) = n \<and> uint (pos e) = p"
  by (auto simp: pack_entry_def uint_word_of_int_eq take_bit_int_eq_self split: if_splits)


lemma loop_body_Break:
  "hdr_unpack (fin_read bytes (fin st) 10) = None \<Longrightarrow> loop_body bytes st = Break"
  by (simp add: loop_body_def)

lemma loop_body_skip:
  "hdr_unpack (fin_read bytes (fin st) 10) = Some dat \<Longrightarrow> dat2 dat \<notin> set [21, 24, 26] \<Longrightarrow>
   loop_body bytes st =
     (case seek_cur (fin st + 10) (dat4 dat) of Inl e \<Rightarrow> Raise e | Inr p \<Rightarrow> Next (st\<lparr>fin := p\<rparr>))"
  by (simp add: loop_body_def)

lemma loop_body_record:
  "hdr_unpack (fin_read bytes (fin st) 10) = Some dat \<Longrightarrow> dat2 dat \<in> set [21, 24, 26] \<Longrightarrow>
   loop_body bytes st =
     (case read_fields bytes (fin st + 10) of
        Inl e \<Rightarrow> Raise e
      | Inr f \<Rightarrow>
          (case pack_entry (if last_ens st > 0 \<and> last_ens st \<noteq> f_ens f then N st + 1 else N st)
                  (fin st) (dat2 dat) f of
             Inl e \<Rightarrow> Raise e
           | Inr entry \<Rightarrow>
               (case seek_cur (fin st + 10 + 76) (dat4 dat - 76) of
                  Inl e \<Rightarrow> Raise e
                | Inr p \<Rightarrow>
                    Next \<lparr>fin = p, fout = fout st @ [entry],
                          N = (if last_ens st > 0 \<and> last_ens st \<noteq> f_ens f then N st + 1 else N st),
                          last_ens = f_ens f\<rparr>)))"
  by (simp add: loop_body_def Let_def split: sum.splits)

lemma seek_cur_Inr: "seek_cur p off = Inr q \<Longrightarrow> q = p + off \<and> 0 \<le> q"
  by (auto simp: seek_cur_def split: if_splits)

lemma seek_cur_Inl: "seek_cur p off = Inl e \<Longrightarrow> p + off < 0 \<and> e = OSError"
  by (auto simp: seek_cur_def split: if_splits)

lemma loop_body_Next:
  assumes nxt: "loop_body bytes st = Next st'"
  obtains dat where "hdr_unpack (fin_read bytes (fin st) 10) = Some dat"
    and "fin st' = fin st + 10 + dat4 dat" and "0 \<le> fin st'"
    and "N st \<le> N st'"
    and "fout st' = fout st \<or>
         (\<exists>e. fout st' = fout st @ [e] \<and> uint (ens e) = N st' \<and> uint (pos e) = fin st)"
    and "N st' \<le> N st + 1"
proof (cases "hdr_unpack (fin_read bytes (fin st) 10)")
  case None
  with nxt show ?thesis by (simp add: loop_body_Break)
next
  case (Some dat)
  show ?thesis
  proof (cases "dat2 dat \<in> set [21, 24, 26]")
    case False
    from nxt obtain p where p: "seek_cur (fin st + 10) (dat4 dat) = Inr p" and st': "st' = st\<lparr>fin := p\<rparr>"
      unfolding loop_body_skip [OF Some False] by (auto split: sum.splits)
    from seek_cur_Inr [OF p] st' Some show ?thesis by (intro that [of dat]) auto
  next
    case True
    from nxt obtain f entry p where
      f: "read_fields bytes (fin st + 10) = Inr f" and
      e: "pack_entry (if last_ens st > 0 \<and> last_ens st \<noteq> f_ens f then N st + 1 else N st)
            (fin st) (dat2 dat) f = Inr entry" and
      p: "seek_cur (fin st + 10 + 76) (dat4 dat - 76) = Inr p" and
      st': "st' = \<lparr>fin = p, fout = fout st @ [entry],
                   N = (if last_ens st > 0 \<and> last_ens st \<noteq> f_ens f then N st + 1 else N st),
                   last_ens = f_ens f\<rparr>"
      unfolding loop_body_record [OF Some True] by (auto split: sum.splits)
    from seek_cur_Inr [OF p] pack_entry_Inr [OF e] st' Some show ?thesis
      by (intro that [of dat]) auto
  qed
qed

lemma loop_body_skip_Next:
  assumes "hdr_unpack (fin_read bytes (fin st) 10) = Some dat" and "dat2 dat \<notin> set [21, 24, 26]"
    and "0 \<le> fin st" and "0 \<le> dat4 dat"
  shows "loop_body bytes st = Next (st\<lparr>fin := fin st + 10 + dat4 dat\<rparr>)"
  using assms(3,4) unfolding loop_body_skip [OF assms(1,2)] by (simp add: seek_cur_def)

lemma loop_body_record_Next:
  assumes h: "hdr_unpack (fin_read bytes (fin st) 10) = Some dat"
    and r: "dat2 dat \<in> set [21, 24, 26]"
    and p: "0 \<le> fin st" and sz: "0 \<le> dat4 dat"
    and len: "fin st + 86 \<le> int (length bytes)" "int (length bytes) < 2 ^ 64"
    and n: "0 \<le> N st" "N st + 1 < 2 ^ 64"
  shows "\<exists>entry n e. loop_body bytes st =
            Next \<lparr>fin = fin st + 10 + dat4 dat, fout = fout st @ [entry], N = n, last_ens = e\<rparr> \<and>
          uint (pos entry) = fin st \<and> uint (ID entry) = dat2 dat"
proof -
  from p len(1) have "\<exists>f. read_fields bytes (fin st + 10) = Inr f"
    by (intro read_fields_Inr) simp_all
  then obtain f where f: "read_fields bytes (fin st + 10) = Inr f" ..
  let ?n = "if last_ens st > 0 \<and> last_ens st \<noteq> f_ens f then N st + 1 else N st"
  from n have "0 \<le> ?n" "?n < 2 ^ 64" by simp_all
  moreover from p len have "fin st < 2 ^ 64" by simp
  ultimately have "\<exists>entry. pack_entry ?n (fin st) (dat2 dat) f = Inr entry"
    using p by (simp add: pack_entry_def)
  then obtain entry where e: "pack_entry ?n (fin st) (dat2 dat) f = Inr entry" ..
  from p sz have s: "seek_cur (fin st + 10 + 76) (dat4 dat - 76) = Inr (fin st + 10 + dat4 dat)"
    by (simp add: seek_cur_def)
  have "loop_body bytes st =
      Next \<lparr>fin = fin st + 10 + dat4 dat, fout = fout st @ [entry], N = ?n, last_ens = f_ens f\<rparr>"
    unfolding loop_body_record [OF h r] by (simp only: f e s sum.case)
  moreover from pack_entry_Inr [OF e] have "uint (pos entry) = fin st" by simp
  moreover have "uint (ID entry) = dat2 dat"
  proof -
    from h have "dat2 dat = uint (fin_read bytes (fin st) 10 ! 2)"
      by (auto simp: hdr_unpack_def split: if_splits)
    moreover from e \<open>0 \<le> ?n\<close> \<open>?n < 2 ^ 64\<close> p \<open>fin st < 2 ^ 64\<close>
    have "ID entry = word_of_int (dat2 dat)"
      by (auto simp: pack_entry_def split: if_splits)
    moreover have "uint (fin_read bytes (fin st) 10 ! 2) < 2 ^ 16"
      using uint_lt2p [of "fin_read bytes (fin st) 10 ! 2"] by simp
    ultimately show ?thesis
      by (simp add: unsigned_ucast_eq take_bit_int_eq_self)
  qed
  ultimately show ?thesis by blast
qed

lemma loop_body_cut_short:
  assumes h: "hdr_unpack (fin_read bytes (fin st) 10) = Some dat"
    and r: "dat2 dat \<in> set [21, 24, 26]"
    and p: "0 \<le> fin st" and len: "int (length bytes) < fin st + 86"
  shows "loop_body bytes st = Raise StructError"
proof -
  from p len have "read_fields bytes (fin st + 10) = Inl StructError"
    by (intro read_fields_short) simp_all
  then show ?thesis unfolding loop_body_record [OF h r] by simp
qed

lemma loop_body_Raise:
  assumes r: "loop_body bytes st = Raise e" and p: "0 \<le> fin st"
    and adv: "small_sizes bytes (fin st)"
    and len: "int (length bytes) < 2 ^ 64" and n: "0 \<le> N st" "N st \<le> fin st"
  shows "e = StructError \<and>
         (\<exists>dat. hdr_unpack (fin_read bytes (fin st) 10) = Some dat \<and>
                dat2 dat \<in> set [21, 24, 26] \<and> int (length bytes) < fin st + 86)"
proof (cases "hdr_unpack (fin_read bytes (fin st) 10)")
  case None
  with r show ?thesis by (simp add: loop_body_Break)
next
  case (Some dat)
  from small_sizes_Some(1) [OF adv Some] have sz: "0 \<le> dat4 dat" .
  show ?thesis
  proof (cases "dat2 dat \<in> set [21, 24, 26]")
    case False
    from loop_body_skip_Next [OF Some False p sz] r show ?thesis by simp
  next
    case True
    show ?thesis
    proof (cases "int (length bytes) < fin st + 86")
      case True
      from loop_body_cut_short [OF Some \<open>dat2 dat \<in> set [21, 24, 26]\<close> p True] r
      have "e = StructError" by simp
      with Some \<open>dat2 dat \<in> set [21, 24, 26]\<close> True show ?thesis by blast
    next
      case False
      then have l: "fin st + 86 \<le> int (length bytes)" by simp
      with len n have "N st + 1 < 2 ^ 64" by simp
      from loop_body_record_Next [OF Some True p sz l len n(1) this] r show ?thesis by auto
    qed
  qed
qed

lemma scan_loop_invariant_aux:
  "scan_loop bytes N_ens st = Some r \<Longrightarrow>
   \<forall>s s'. I s \<longrightarrow> loop_body bytes s = Next s' \<longrightarrow> I s' \<Longrightarrow> I st \<Longrightarrow> r = Inr st' \<Longrightarrow> I st'"
proof (induct arbitrary: st' rule: scan_loop.raw_induct [rotated 1, consumes 1])
  case (1 loop bytes n s r)
  note body = \<open>(if N s < n
      then case loop_body bytes s of Break \<Rightarrow> Some (Inr s) | Raise e \<Rightarrow> Some (Inl e)
           | Next st' \<Rightarrow> loop bytes n st'
      else Some (Inr s)) = Some r\<close>
  show ?case
  proof (cases "N s < n")
    case False
    with body \<open>I s\<close> \<open>r = Inr st'\<close> show ?thesis by simp
  next
    case True
    show ?thesis
    proof (cases "loop_body bytes s")
      case Break
      with body True \<open>I s\<close> \<open>r = Inr st'\<close> show ?thesis by simp
    next
      case (Raise e)
      with body True \<open>r = Inr st'\<close> show ?thesis by simp
    next
      case (Next s1)
      with body True have run: "loop bytes n s1 = Some r" by simp
      note step = \<open>\<forall>s s'. I s \<longrightarrow> loop_body bytes s = Next s' \<longrightarrow> I s'\<close>
      from step \<open>I s\<close> Next have "I s1" by blast
      from 1(1) [OF run step this \<open>r = Inr st'\<close>] show ?thesis .
    qed
  qed
qed

lemma scan_loop_invariant:
  assumes step: "\<And>s s'. I s \<Longrightarrow> loop_body bytes s = Next s' \<Longrightarrow> I s'"
    and run: "scan_loop bytes N_ens st = Some (Inr st')" and init: "I st"
  shows "I st'"
proof -
  from step have "\<forall>s s'. I s \<longrightarrow> loop_body bytes s = Next s' \<longrightarrow> I s'" by blast
  from scan_loop_invariant_aux [where I = I, OF run this init refl] show ?thesis .
qed

lemma scan_loop_returns:
  assumes "small_sizes bytes (fin st)" and "0 \<le> fin st" and "0 \<le> N st" and "N st \<le> fin st"
    and len: "int (length bytes) < 2 ^ 64"
  shows "(\<exists>st'. scan_loop bytes N_ens st = Some (Inr st')) \<or>
         (scan_loop bytes N_ens st = Some (Inl StructError) \<and>
          (\<exists>p dat. 0 \<le> p \<and> hdr_unpack (fin_read bytes p 10) = Some dat \<and>
                   dat2 dat \<in> set [21, 24, 26] \<and> int (length bytes) < p + 86))"
  using assms(1-4)
proof (induction "nat (int (length bytes) - fin st)" arbitrary: st rule: less_induct)
  case less
  show ?case
  proof (cases "N st < N_ens")
    case False
    then show ?thesis by (subst scan_loop.simps) simp
  next
    case True
    show ?thesis
    proof (cases "loop_body bytes st")
      case Break
      with True show ?thesis by (subst scan_loop.simps) simp
    next
      case (Raise e)
      from loop_body_Raise [OF Raise less.prems(2) less.prems(1) len less.prems(3,4)]
      have e: "e = StructError" and
        c: "\<exists>dat. hdr_unpack (fin_read bytes (fin st) 10) = Some dat \<and>
                dat2 dat \<in> set [21, 24, 26] \<and> int (length bytes) < fin st + 86"
        by simp_all
      from Raise True e have "scan_loop bytes N_ens st = Some (Inl StructError)"
        by (subst scan_loop.simps) simp
      moreover from c less.prems(2)
      have "\<exists>p dat. 0 \<le> p \<and> hdr_unpack (fin_read bytes p 10) = Some dat \<and>
                   dat2 dat \<in> set [21, 24, 26] \<and> int (length bytes) < p + 86"
        by blast
      ultimately show ?thesis by (intro disjI2 conjI)
    next
      case (Next s1)
      from Next obtain dat where h: "hdr_unpack (fin_read bytes (fin st) 10) = Some dat"
        and f: "fin s1 = fin st + 10 + dat4 dat" and nn: "0 \<le> fin s1"
        and n1: "N st \<le> N s1" and n2: "N s1 \<le> N st + 1"
        by (rule loop_body_Next)
      from small_sizes_Some [OF less.prems(1) h]
      have sz: "0 \<le> dat4 dat" and adv: "small_sizes bytes (fin s1)"
        by (simp_all add: f)
      from hdr_unpack_Some_length [OF h] sz f
      have "nat (int (length bytes) - fin s1) < nat (int (length bytes) - fin st)" by simp
      moreover from n1 less.prems(3) have "0 \<le> N s1" by simp
      moreover from n2 less.prems(4) sz f have "N s1 \<le> fin s1" by simp
      ultimately have
        "(\<exists>st'. scan_loop bytes N_ens s1 = Some (Inr st')) \<or>
         (scan_loop bytes N_ens s1 = Some (Inl StructError) \<and>
          (\<exists>p dat. 0 \<le> p \<and> hdr_unpack (fin_read bytes p 10) = Some dat \<and>
                   dat2 dat \<in> set [21, 24, 26] \<and> int (length bytes) < p + 86))"
        using adv nn by (intro less.hyps)
      moreover have "scan_loop bytes N_ens st = scan_loop bytes N_ens s1"
        using True Next by (subst scan_loop.simps) simp
      ultimately show ?thesis by simp
    qed
  qed
qed

lemma sorted_wrt_adjacent:
  "sorted_wrt P xs \<Longrightarrow> list_all (\<lambda>(a, b). P a b) (zip xs (tl xs))"
  by (induction xs rule: induct_list012) auto

lemma ens_invariant_step:
  assumes "(\<forall>e\<in>set (fout s). uint (ens e) \<le> N s) \<and> sorted (map ens (fout s))"
    and "loop_body bytes s = Next s'"
  shows "(\<forall>e\<in>set (fout s'). uint (ens e) \<le> N s') \<and> sorted (map ens (fout s'))"
proof -
  from assms(2) obtain dat where n: "N s \<le> N s'" and
    fo: "fout s' = fout s \<or> (\<exists>e. fout s' = fout s @ [e] \<and> uint (ens e) = N s' \<and> uint (pos e) = fin s)"
    by (rule loop_body_Next)
  from fo show ?thesis
  proof
    assume "fout s' = fout s"
    with assms(1) n show ?thesis by fastforce
  next
    assume "\<exists>e. fout s' = fout s @ [e] \<and> uint (ens e) = N s' \<and> uint (pos e) = fin s"
    then obtain e where e: "fout s' = fout s @ [e]" "uint (ens e) = N s'" by blast
    have "\<forall>x\<in>set (fout s). ens x \<le> ens e"
      using assms(1) n e(2) by (fastforce simp: word_le_def)
    with assms(1) n e show ?thesis by (fastforce simp: sorted_append)
  qed
qed

lemma pos_invariant_step:
  assumes "0 \<le> fin s \<and> small_sizes bytes (fin s) \<and> (\<forall>e\<in>set (fout s). uint (pos e) < fin s)
           \<and> sorted_wrt (<) (map pos (fout s))"
    and "loop_body bytes s = Next s'"
  shows "0 \<le> fin s' \<and> small_sizes bytes (fin s') \<and> (\<forall>e\<in>set (fout s'). uint (pos e) < fin s')
           \<and> sorted_wrt (<) (map pos (fout s'))"
proof -
  from assms(2) obtain dat where h: "hdr_unpack (fin_read bytes (fin s) 10) = Some dat"
    and f: "fin s' = fin s + 10 + dat4 dat" and nn: "0 \<le> fin s'" and
    fo: "fout s' = fout s \<or> (\<exists>e. fout s' = fout s @ [e] \<and> uint (ens e) = N s' \<and> uint (pos e) = fin s)"
    by (rule loop_body_Next)
  from assms(1) have "small_sizes bytes (fin s)" by simp
  from small_sizes_Some [OF this h]
  have sz: "0 \<le> dat4 dat" and adv: "small_sizes bytes (fin s')"
    by (simp_all add: f)
  from sz f have lt: "fin s < fin s'" by simp
  from fo show ?thesis
  proof
    assume "fout s' = fout s"
    with assms(1) nn adv lt show ?thesis by fastforce
  next
    assume "\<exists>e. fout s' = fout s @ [e] \<and> uint (ens e) = N s' \<and> uint (pos e) = fin s"
    then obtain e where e: "fout s' = fout s @ [e]" "uint (pos e) = fin s" by blast
    have "\<forall>x\<in>set (fout s). pos x < pos e"
      using assms(1) e(2) by (simp add: word_less_def)
    with assms(1) nn adv lt e show ?thesis by (fastforce simp: sorted_wrt_append)
  qed
qed

subsection \<open>The ensemble number of a record\<close>

text \<open>
  Claim C1 says that every recognised record after the first whose ensemble counter
  differs from the counter of the recognised record before it gets an ensemble number
  one above. The guard \<open>last_ens > 0\<close>, meant to skip the first record (where
  \<open>last_ens\<close> is \<open>-1\<close>), also skips a record that follows one of counter 0: two
  velocity records with the counters 0 and 1 are both given the ensemble number 0,
  while the counters 5 and 6 give 0 and 1.
\<close>

theorem counter_zero_not_counted:
  "create_index_slow (test_record 21 0 @ test_record 21 1) (2 ^ 32) =
     Some (Inr [test_entry 0 0, test_entry 0 86])
   \<and> create_index_slow (test_record 21 5 @ test_record 21 6) (2 ^ 32) =
     Some (Inr [test_entry 0 0, test_entry 1 86])"
  by code_simp

subsection \<open>The size field is not checked\<close>

text \<open>
  Claim C2 says that the build fails with a corruption error on a record whose declared
  size is 0 or below the header size. The code has no such check. The velocity record
  of \<open>zero_size_stream\<close> declares the size 0; the build indexes it, moves the cursor
  to offset 10, reads on through the zeros and returns at the end of the file.
\<close>

theorem zero_size_record_indexed:
  "map_option dat4 (hdr_unpack (fin_read zero_size_stream 0 10)) = Some 0
   \<and> create_index_slow zero_size_stream (2 ^ 32) = Some (Inr [test_entry 0 0])"
  by code_simp

text \<open>
  Claim C2 as the code has it: a record whose size field is 0 or smaller than the
  header size raises no corruption error; the build handles it like every other record
  whose size is below \<open>0x8000\<close>. An unrecognised one is skipped; a recognised one is
  indexed when the file holds 86 bytes from its offset on, and raises \<open>struct.error\<close>
  when the file holds fewer; in both cases that go on, the cursor moves to the record's
  offset plus 10 plus the declared size, so the scan does not stay on the record. On a
  file of fewer than \<open>2 ^ 64\<close> bytes in which every header that the scan reads has a
  size below \<open>0x8000\<close>, the build returns the index or raises \<open>struct.error\<close>, and it
  raises only when the file holds fewer than 86 bytes of some recognised record.
\<close>

theorem size_not_checked:
  "(hdr_unpack (fin_read bytes (fin st) 10) = Some dat \<and> 0 \<le> fin st \<and> 0 \<le> dat4 dat \<and>
      dat2 dat \<notin> set [21, 24, 26] \<longrightarrow>
      loop_body bytes st = Next (st\<lparr>fin := fin st + 10 + dat4 dat\<rparr>))
   \<and> (hdr_unpack (fin_read bytes (fin st) 10) = Some dat \<and> 0 \<le> fin st \<and> 0 \<le> dat4 dat \<and>
      dat2 dat \<in> set [21, 24, 26] \<and> fin st + 86 \<le> int (length bytes) \<and>
      int (length bytes) < 2 ^ 64 \<and> 0 \<le> N st \<and> N st + 1 < 2 ^ 64 \<longrightarrow>
      (\<exists>entry n e. loop_body bytes st =
            Next \<lparr>fin = fin st + 10 + dat4 dat, fout = fout st @ [entry], N = n, last_ens = e\<rparr> \<and>
          uint (pos entry) = fin st \<and> uint (ID entry) = dat2 dat))
   \<and> (hdr_unpack (fin_read bytes (fin st) 10) = Some dat \<and> 0 \<le> fin st \<and>
      dat2 dat \<in> set [21, 24, 26] \<and> int (length bytes) < fin st + 86 \<longrightarrow>
      loop_body bytes st = Raise StructError)
   \<and> (small_sizes bytes 0 \<and> int (length bytes) < 2 ^ 64 \<longrightarrow>
        (\<exists>index. create_index_slow bytes N_ens = Some (Inr index)) \<or>
        (create_index_slow bytes N_ens = Some (Inl StructError) \<and>
         (\<exists>p dat. 0 \<le> p \<and> hdr_unpack (fin_read bytes p 10) = Some dat \<and>
                  dat2 dat \<in> set [21, 24, 26] \<and> int (length bytes) < p + 86)))"
proof (intro conjI impI)
  assume "hdr_unpack (fin_read bytes (fin st) 10) = Some dat \<and> 0 \<le> fin st \<and> 0 \<le> dat4 dat \<and>
      dat2 dat \<notin> set [21, 24, 26]"
  then show "loop_body bytes st = Next (st\<lparr>fin := fin st + 10 + dat4 dat\<rparr>)"
    by (intro loop_body_skip_Next) simp_all
next
  assume "hdr_unpack (fin_read bytes (fin st) 10) = Some dat \<and> 0 \<le> fin st \<and> 0 \<le> dat4 dat \<and>
      dat2 dat \<in> set [21, 24, 26] \<and> fin st + 86 \<le> int (length bytes) \<and>
      int (length bytes) < 2 ^ 64 \<and> 0 \<le> N st \<and> N st + 1 < 2 ^ 64"
  then show "\<exists>entry n e. loop_body bytes st =
            Next \<lparr>fin = fin st + 10 + dat4 dat, fout = fout st @ [entry], N = n, last_ens = e\<rparr> \<and>
          uint (pos entry) = fin st \<and> uint (ID entry) = dat2 dat"
    by (intro loop_body_record_Next) simp_all
next
  assume "hdr_unpack (fin_read bytes (fin st) 10) = Some dat \<and> 0 \<le> fin st \<and>
      dat2 dat \<in> set [21, 24, 26] \<and> int (length bytes) < fin st + 86"
  then show "loop_body bytes st = Raise StructError"
    by (intro loop_body_cut_short [of bytes st dat]) simp_all
next
  assume a: "small_sizes bytes 0 \<and> int (length bytes) < 2 ^ 64"
  then have "small_sizes bytes (fin init_state)" "0 \<le> fin init_state" "0 \<le> N init_state"
    "N init_state \<le> fin init_state" "int (length bytes) < 2 ^ 64"
    by (simp_all add: init_state_def)
  from scan_loop_returns [OF this, of N_ens]
  show "(\<exists>index. create_index_slow bytes N_ens = Some (Inr index)) \<or>
        (create_index_slow bytes N_ens = Some (Inl StructError) \<and>
         (\<exists>p dat. 0 \<le> p \<and> hdr_unpack (fin_read bytes p 10) = Some dat \<and>
                  dat2 dat \<in> set [21, 24, 26] \<and> int (length bytes) < p + 86))"
    by (auto simp: create_index_slow_def)
qed

theorem size_not_checked_witness:
  "loop_body ([0xA5, 10, 0, 0x10, 5, 0, 0, 0, 0, 0] @ zero_size_stream) init_state =
     Next (init_state\<lparr>fin := 15\<rparr>)
   \<and> loop_body zero_size_stream init_state =
     Next \<lparr>fin = 10, fout = [test_entry 0 0], N = 0, last_ens = 0\<rparr>
   \<and> (\<exists>entry n e. loop_body zero_size_stream init_state =
            Next \<lparr>fin = 10, fout = fout init_state @ [entry], N = n, last_ens = e\<rparr> \<and>
          uint (pos entry) = 0 \<and> uint (ID entry) = 21)
   \<and> loop_body (take 50 zero_size_stream) init_state = Raise StructError
   \<and> small_sizes zero_size_stream 0
   \<and> create_index_slow zero_size_stream (2 ^ 32) = Some (Inr [test_entry 0 0])
   \<and> ((\<exists>index. create_index_slow zero_size_stream (2 ^ 32) = Some (Inr index)) \<or>
      (create_index_slow zero_size_stream (2 ^ 32) = Some (Inl StructError) \<and>
       (\<exists>p dat. 0 \<le> p \<and> hdr_unpack (fin_read zero_size_stream p 10) = Some dat \<and>
                dat2 dat \<in> set [21, 24, 26] \<and> int (length zero_size_stream) < p + 86)))
   \<and> small_sizes (take 50 zero_size_stream) 0
   \<and> create_index_slow (take 50 zero_size_stream) (2 ^ 32) = Some (Inl StructError)"
proof -
  let ?skip = "[0xA5, 10, 0, 0x10, 5, 0, 0, 0, 0, 0] @ zero_size_stream"
  let ?skipdat = "\<lparr>dat0 = 0xA5, dat1 = 10, dat2 = 0, dat3 = 0x10, dat4 = 5, dat5 = 0, dat6 = 0\<rparr>"
  let ?dat = "\<lparr>dat0 = 0xA5, dat1 = 10, dat2 = 21, dat3 = 0x10, dat4 = 0, dat5 = 0, dat6 = 0\<rparr>"
  have h1: "hdr_unpack (fin_read ?skip (fin init_state) 10) = Some ?skipdat" by code_simp
  have h2: "hdr_unpack (fin_read zero_size_stream (fin init_state) 10) = Some ?dat" by code_simp
  have h3: "hdr_unpack (fin_read (take 50 zero_size_stream) (fin init_state) 10) = Some ?dat"
    by code_simp
  have l2: "int (length zero_size_stream) = 86" by code_simp
  have l3: "int (length (take 50 zero_size_stream)) = 50" by code_simp
  have s2: "small_sizes zero_size_stream 0" by code_simp
  have s3: "small_sizes (take 50 zero_size_stream) 0" by code_simp
  have r2: "create_index_slow zero_size_stream (2 ^ 32) = Some (Inr [test_entry 0 0])"
    by code_simp
  have r3: "create_index_slow (take 50 zero_size_stream) (2 ^ 32) = Some (Inl StructError)"
    by code_simp
  have n2: "loop_body zero_size_stream init_state =
     Next \<lparr>fin = 10, fout = [test_entry 0 0], N = 0, last_ens = 0\<rparr>"
    by code_simp
  from size_not_checked [of ?skip init_state ?skipdat, THEN conjunct1] h1
  have 1: "loop_body ?skip init_state = Next (init_state\<lparr>fin := 15\<rparr>)"
    by (simp add: init_state_def)
  from size_not_checked [of zero_size_stream init_state ?dat,
      THEN conjunct2, THEN conjunct1] h2 l2
  have 2: "\<exists>entry n e. loop_body zero_size_stream init_state =
            Next \<lparr>fin = 10, fout = fout init_state @ [entry], N = n, last_ens = e\<rparr> \<and>
          uint (pos entry) = 0 \<and> uint (ID entry) = 21"
    by (simp add: init_state_def)
  from size_not_checked [of "take 50 zero_size_stream" init_state ?dat,
      THEN conjunct2, THEN conjunct2, THEN conjunct1] h3 l3
  have 3: "loop_body (take 50 zero_size_stream) init_state = Raise StructError"
    by (simp add: init_state_def)
  from size_not_checked [of zero_size_stream _ _ "2 ^ 32",
      THEN conjunct2, THEN conjunct2, THEN conjunct2] s2 l2
  have 4: "(\<exists>index. create_index_slow zero_size_stream (2 ^ 32) = Some (Inr index)) \<or>
      (create_index_slow zero_size_stream (2 ^ 32) = Some (Inl StructError) \<and>
       (\<exists>p dat. 0 \<le> p \<and> hdr_unpack (fin_read zero_size_stream p 10) = Some dat \<and>
                dat2 dat \<in> set [21, 24, 26] \<and> int (length zero_size_stream) < p + 86))"
    by simp
  from 1 n2 2 3 s2 r2 4 s3 r3 show ?thesis by (intro conjI)
qed

subsection \<open>The order of the index\<close>

text \<open>
  Claim C5 says that in every index that the build produces the offsets of adjacent
  entries increase strictly and the ensemble numbers do not decrease. The header
  format \<open>'<BBBBhhh'\<close> reads the size field as a signed integer, so a size from
  \<open>0x8000\<close> on moves the cursor backwards. \<open>backward_stream\<close> holds a record whose
  size field is \<open>0xFFEC\<close>; the build returns an index whose offsets are 20 and 10.
\<close>

theorem offsets_can_decrease:
  "create_index_slow backward_stream (2 ^ 32) =
     Some (Inr [test_entry 0 20, (test_entry 0 10)\<lparr>config := 4117\<rparr>])
   \<and> \<not> offsets_increasing [test_entry 0 20, (test_entry 0 10)\<lparr>config := 4117\<rparr>]"
  by code_simp

text \<open>
  The rest of the order holds: in every index that the build returns the ensemble
  numbers of adjacent entries do not decrease, and the offsets increase strictly when
  every size field that the scan reads is below \<open>0x8000\<close>.
\<close>

lemma returned_index_order:
  assumes "create_index_slow bytes N_ens = Some (Inr index)"
  shows "ensembles_nondecreasing index \<and> (small_sizes bytes 0 \<longrightarrow> offsets_increasing index)"
proof -
  from assms obtain r where "scan_loop bytes N_ens init_state = Some r"
    and "map_sum id fout r = Inr index"
    by (auto simp: create_index_slow_def)
  then obtain st' where run: "scan_loop bytes N_ens init_state = Some (Inr st')"
    and idx: "index = fout st'"
    by (cases r) auto
  have "(\<forall>e\<in>set (fout st'). uint (ens e) \<le> N st') \<and> sorted (map ens (fout st'))"
    by (rule scan_loop_invariant [OF ens_invariant_step run]) (simp_all add: init_state_def)
  then have "sorted_wrt (\<le>) (map ens index)" by (simp add: idx)
  then have "sorted_wrt (\<lambda>a b. ens a \<le> ens b) index" by (simp add: sorted_wrt_map)
  from sorted_wrt_adjacent [OF this] have 1: "ensembles_nondecreasing index"
    by (simp add: ensembles_nondecreasing_def)
  have 2: "offsets_increasing index" if adv: "small_sizes bytes 0"
  proof -
    have "0 \<le> fin st' \<and> small_sizes bytes (fin st') \<and> (\<forall>e\<in>set (fout st'). uint (pos e) < fin st')
           \<and> sorted_wrt (<) (map pos (fout st'))"
      by (rule scan_loop_invariant [OF pos_invariant_step run]) (use adv in \<open>simp_all add: init_state_def\<close>)
    then have "sorted_wrt (\<lambda>a b. pos a < pos b) index" by (simp add: idx sorted_wrt_map)
    from sorted_wrt_adjacent [OF this] show ?thesis by (simp add: offsets_increasing_def)
  qed
  from 1 2 show ?thesis by blast
qed

section \<open>Properties of \<open>index2ens_pos\<close>\<close>

lemma index2ens_pos_Cons:
  "index2ens_pos (x # xs) =
     pos x # map snd (filter fst (zip (map (\<lambda>d. d \<noteq> 0) (np_diff (ens x # map ens xs))) (map pos xs)))"
  by (simp add: index2ens_pos_def np_diff_def)

lemma np_diff_Cons2: "np_diff (p # e # es) = (e - p) # np_diff (e # es)"
  by (simp add: np_diff_def)

lemma changes_first_offsets:
  "p \<in> set seen \<Longrightarrow> \<forall>s\<in>set seen. s \<le> p \<Longrightarrow> sorted (p # map ens xs) \<Longrightarrow>
   map snd (filter fst (zip (map (\<lambda>d. d \<noteq> 0) (np_diff (p # map ens xs))) (map pos xs)))
     = first_offsets seen xs"
proof (induction xs arbitrary: p seen)
  case Nil
  then show ?case by (simp add: np_diff_def)
next
  case (Cons y ys)
  show ?case
  proof (cases "ens y = p")
    case True
    with Cons.prems have "sorted (p # map ens ys)" by simp
    from Cons.IH [OF Cons.prems(1,2) this] True Cons.prems(1) show ?thesis
      by (simp add: np_diff_Cons2)
  next
    case False
    from Cons.prems have "p \<le> ens y" by simp
    with False have lt: "p < ens y" by (simp add: less_le)
    with Cons.prems(2) have notin: "ens y \<notin> set seen" by auto
    have "map snd (filter fst (zip (map (\<lambda>d. d \<noteq> 0) (np_diff (ens y # map ens ys))) (map pos ys)))
           = first_offsets (ens y # seen) ys"
      using Cons.prems lt by (intro Cons.IH) auto
    with False notin show ?thesis by (simp add: np_diff_Cons2)
  qed
qed

lemma adjacent_sorted:
  "ensembles_nondecreasing index \<Longrightarrow> sorted (map ens index)"
  unfolding ensembles_nondecreasing_def
  by (induction index rule: induct_list012) auto

lemma index2ens_pos_first_offsets:
  assumes "ensembles_nondecreasing index"
  shows "index2ens_pos index = first_offsets [] index"
proof (cases index)
  case Nil
  then show ?thesis by (simp add: index2ens_pos_def np_diff_def)
next
  case (Cons x xs)
  from adjacent_sorted [OF assms] Cons have "sorted (ens x # map ens xs)" by simp
  from changes_first_offsets [of "ens x" "[ens x]" xs, OF _ _ this] Cons show ?thesis
    by (simp add: index2ens_pos_Cons)
qed


lemma two_record_stream_index:
  assumes "two_record_stream bytes c1 c2" and "0 < c1"
  shows "map_option (map_sum id index2ens_pos) (get_index bytes) =
           Some (Inr (if c1 = c2 then [0] else [0, 40]))"
proof -
  from assms(1) obtain h1 where h1: "hdr_unpack (fin_read bytes 0 10) = Some h1"
    by (cases "hdr_unpack (fin_read bytes 0 10)") (simp_all add: two_record_stream_def)
  from assms(1) h1 obtain f1 where f1: "read_fields bytes 10 = Inr f1"
    by (cases "read_fields bytes 10") (simp_all add: two_record_stream_def)
  from assms(1) h1 f1 obtain h2 where h2: "hdr_unpack (fin_read bytes 40 10) = Some h2"
    by (cases "hdr_unpack (fin_read bytes 40 10)") (simp_all add: two_record_stream_def)
  from assms(1) h1 f1 h2 obtain f2 where f2: "read_fields bytes 50 = Inr f2"
    by (cases "read_fields bytes 50") (simp_all add: two_record_stream_def)
  from assms(1) h1 f1 h2 f2 have
    v: "dat2 h1 = 21" "dat4 h1 = 30" "f_ens f1 = c1" "dat2 h2 = 21" "f_ens f2 = c2"
       "0 \<le> 50 + dat4 h2" and
    eof: "hdr_unpack (fin_read bytes (50 + dat4 h2) 10) = None"
    by (simp_all add: two_record_stream_def)
  define e1 where "e1 = (case pack_entry 0 0 21 f1 of Inr e \<Rightarrow> e)"
  have e1: "pack_entry 0 0 21 f1 = Inr e1" "ens e1 = 0" "pos e1 = 0"
    by (simp_all add: pack_entry_def e1_def)
  define n where "n = (if c1 = c2 then 0 else (1::int))"
  define e2 where "e2 = (case pack_entry n 40 21 f2 of Inr e \<Rightarrow> e)"
  have e2: "pack_entry n 40 21 f2 = Inr e2" "ens e2 = word_of_int n" "pos e2 = 40"
    by (simp_all add: pack_entry_def e2_def n_def)
  have 1: "loop_body bytes init_state = Next \<lparr>fin = 40, fout = [e1], N = 0, last_ens = c1\<rparr>"
    using h1 f1 v e1(1) by (simp add: loop_body_def init_state_def seek_cur_def)
  have 2: "loop_body bytes \<lparr>fin = 40, fout = [e1], N = 0, last_ens = c1\<rparr> =
             Next \<lparr>fin = 50 + dat4 h2, fout = [e1, e2], N = n, last_ens = c2\<rparr>"
    using h2 f2 v e2(1) assms(2)
    by (cases "c1 = c2") (simp_all add: loop_body_def seek_cur_def n_def)
  have 3: "loop_body bytes \<lparr>fin = 50 + dat4 h2, fout = [e1, e2], N = n, last_ens = c2\<rparr> = Break"
    using eof by (simp add: loop_body_def)
  have "scan_loop bytes (2 ^ 32) init_state =
          scan_loop bytes (2 ^ 32) \<lparr>fin = 40, fout = [e1], N = 0, last_ens = c1\<rparr>"
    by (subst scan_loop.simps) (simp add: 1, simp add: init_state_def)
  also have "\<dots> = scan_loop bytes (2 ^ 32)
                    \<lparr>fin = 50 + dat4 h2, fout = [e1, e2], N = n, last_ens = c2\<rparr>"
    by (subst scan_loop.simps) (simp add: 2)
  also have "\<dots> = Some (Inr \<lparr>fin = 50 + dat4 h2, fout = [e1, e2], N = n, last_ens = c2\<rparr>)"
  proof -
    have "n < 2 ^ 32" by (simp add: n_def)
    then show ?thesis by (subst scan_loop.simps) (simp add: 3)
  qed
  finally show ?thesis
    using e1 e2
    by (simp add: get_index_def create_index_slow_def index2ens_pos_def np_diff_def n_def)
qed

text \<open>
  Claim C6: on an index whose ensemble numbers do not decrease, \<open>index2ens_pos\<close>
  returns the offsets of the first entry of each distinct ensemble number, in order;
  and for a file of two velocity records at the offsets 0 and 40, read by
  \<open>get_index\<close>, the ensemble counters 5 and 5 give \<open>[0]\<close>, the counters 5 and 6
  give \<open>[0, 40]\<close>.
\<close>

theorem index2ens_pos_first_of_each:
  "(ensembles_nondecreasing index \<longrightarrow> index2ens_pos index = first_offsets [] index)
   \<and> (two_record_stream bytes 5 5 \<longrightarrow>
        map_option (map_sum id index2ens_pos) (get_index bytes) = Some (Inr [0]))
   \<and> (two_record_stream bytes 5 6 \<longrightarrow>
        map_option (map_sum id index2ens_pos) (get_index bytes) = Some (Inr [0, 40]))"
  using index2ens_pos_first_offsets [of index]
    two_record_stream_index [of bytes 5 5] two_record_stream_index [of bytes 5 6]
  by simp

theorem index2ens_pos_first_of_each_witness:
  "ensembles_nondecreasing [test_entry 0 0, test_entry 0 40, test_entry 1 80]
   \<and> index2ens_pos [test_entry 0 0, test_entry 0 40, test_entry 1 80] =
       first_offsets [] [test_entry 0 0, test_entry 0 40, test_entry 1 80]
   \<and> two_record_stream (two_record_test 5) 5 5
   \<and> map_option (map_sum id index2ens_pos) (get_index (two_record_test 5)) = Some (Inr [0])
   \<and> two_record_stream (two_record_test 6) 5 6
   \<and> map_option (map_sum id index2ens_pos) (get_index (two_record_test 6)) = Some (Inr [0, 40])"
proof -
  have a: "ensembles_nondecreasing [test_entry 0 0, test_entry 0 40, test_entry 1 80]"
    by code_simp
  have b: "two_record_stream (two_record_test 5) 5 5" by code_simp
  have c: "two_record_stream (two_record_test 6) 5 6" by code_simp
  from a b c
    index2ens_pos_first_of_each
      [of "[test_entry 0 0, test_entry 0 40, test_entry 1 80]" "two_record_test 5"]
    index2ens_pos_first_of_each
      [of "[test_entry 0 0, test_entry 0 40, test_entry 1 80]" "two_record_test 6"]
  show ?thesis by blast
qed

section \<open>Properties of \<open>calc_config\<close>\<close>

lemma isuniform_Inr: "vec \<noteq> [] \<Longrightarrow> isuniform vec = Inr (\<forall>x\<in>set vec. x = hd vec)"
  by (cases vec) (auto simp: isuniform_def list_all_iff)

lemma hd_filter_ID:
  assumes "i \<in> ID ` set index"
  shows "filter (\<lambda>e. ID e = i) index \<noteq> []"
    and "hd (filter (\<lambda>e. ID e = i) index) \<in> set index"
    and "ID (hd (filter (\<lambda>e. ID e = i) index)) = i"
proof -
  from assms show ne: "filter (\<lambda>e. ID e = i) index \<noteq> []"
    by (auto simp: filter_empty_conv)
  from hd_in_set [OF ne] show "hd (filter (\<lambda>e. ID e = i) index) \<in> set index"
    and "ID (hd (filter (\<lambda>e. ID e = i) index)) = i" by auto
qed

lemma calc_config_ids_step:
  assumes "i \<in> set [21, 24, 26]" and "i \<in> ID ` set index"
  shows "calc_config_ids index (i # ids) cfg =
     (if \<exists>x\<in>set index. ID x = i \<and> config x \<noteq> config (hd (filter (\<lambda>e. ID e = i) index))
      then Inl (ConfigNotIdentical i)
      else if \<exists>x\<in>set index. ID x = i \<and> beams_cy x \<noteq> beams_cy (hd (filter (\<lambda>e. ID e = i) index))
      then Inl (BeamsCyNotIdentical i)
      else calc_config_ids index ids
             (cfg(i \<mapsto> config_of i (config (hd (filter (\<lambda>e. ID e = i) index)))
                                  (beams_cy (hd (filter (\<lambda>e. ID e = i) index))))))"
proof -
  let ?inds = "filter (\<lambda>e. ID e = i) index"
  from hd_filter_ID(1) [OF assms(2)] have ne: "?inds \<noteq> []" .
  then have c: "isuniform (map config ?inds) = Inr (\<forall>x\<in>set ?inds. config x = config (hd ?inds))"
    and b: "isuniform (map beams_cy ?inds) = Inr (\<forall>x\<in>set ?inds. beams_cy x = beams_cy (hd ?inds))"
    by (simp_all add: isuniform_Inr hd_map)
  from ne have n0: "map config ?inds ! 0 = config (hd ?inds)" "map beams_cy ?inds ! 0 = beams_cy (hd ?inds)"
    by (simp_all add: hd_conv_nth)
  have "calc_config_ids index (i # ids) cfg =
     (if \<not> (\<forall>x\<in>set ?inds. config x = config (hd ?inds)) then Inl (ConfigNotIdentical i)
      else if \<not> (\<forall>x\<in>set ?inds. beams_cy x = beams_cy (hd ?inds)) then Inl (BeamsCyNotIdentical i)
      else calc_config_ids index ids (cfg(i \<mapsto> config_of i (config (hd ?inds)) (beams_cy (hd ?inds)))))"
    using assms(1) by (simp only: calc_config_ids.simps Let_def c b n0 sum.case if_False not_not
        not_True_eq_False)
  then show ?thesis by auto
qed

lemma calc_config_ids_skip:
  "i \<notin> set [21, 24, 26] \<Longrightarrow> calc_config_ids index (i # ids) cfg = calc_config_ids index ids cfg"
  by simp


lemma calc_config_ids_ok:
  assumes "\<forall>i\<in>set ids. i \<in> ID ` set index"
    and uni: "\<And>x y. x \<in> set index \<Longrightarrow> y \<in> set index \<Longrightarrow> ID x = ID y \<Longrightarrow> ID x \<in> set [21, 24, 26] \<Longrightarrow>
           config x = config y \<and> beams_cy x = beams_cy y"
  shows "\<exists>cfg'. calc_config_ids index ids cfg = Inr cfg' \<and>
           (\<forall>e\<in>set index. ID e \<in> set ids \<longrightarrow> ID e \<in> set [21, 24, 26] \<longrightarrow>
                cfg' (ID e) = Some (config_of (ID e) (config e) (beams_cy e))) \<and>
           (\<forall>i. i \<notin> set ids \<longrightarrow> cfg' i = cfg i) \<and>
           (\<forall>i. i \<notin> set [21, 24, 26] \<longrightarrow> cfg' i = cfg i)"
  using assms(1)
proof (induction ids arbitrary: cfg)
  case Nil
  then show ?case by simp
next
  case (Cons i ids)
  from Cons.prems have present: "i \<in> ID ` set index" and rest: "\<forall>i\<in>set ids. i \<in> ID ` set index"
    by simp_all
  show ?case
  proof (cases "i \<in> set [21, 24, 26]")
    case False
    from Cons.IH [OF rest, of cfg] obtain cfg' where
      r: "calc_config_ids index ids cfg = Inr cfg'" and
      a: "\<And>e. e \<in> set index \<Longrightarrow> ID e \<in> set ids \<Longrightarrow> ID e \<in> set [21, 24, 26] \<Longrightarrow>
                cfg' (ID e) = Some (config_of (ID e) (config e) (beams_cy e))" and
      b: "\<And>j. j \<notin> set ids \<Longrightarrow> cfg' j = cfg j" and
      c: "\<And>j. j \<notin> set [21, 24, 26] \<Longrightarrow> cfg' j = cfg j"
      by blast
    have 1: "calc_config_ids index (i # ids) cfg = Inr cfg'"
      using r by (simp only: calc_config_ids_skip [OF False])
    have 2: "cfg' (ID e) = Some (config_of (ID e) (config e) (beams_cy e))"
      if "e \<in> set index" "ID e \<in> set (i # ids)" "ID e \<in> set [21, 24, 26]" for e
    proof -
      from that(3) False have "ID e \<noteq> i" by blast
      with that(2) have "ID e \<in> set ids" by simp
      from a [OF that(1) this that(3)] show ?thesis .
    qed
    have 3: "cfg' j = cfg j" if "j \<notin> set (i # ids)" for j
      using that b by simp
    from 1 2 3 c show ?thesis by blast
  next
    case True
    let ?h = "hd (filter (\<lambda>e. ID e = i) index)"
    let ?cfg = "cfg(i \<mapsto> config_of i (config ?h) (beams_cy ?h))"
    from hd_filter_ID [OF present] have h: "?h \<in> set index" "ID ?h = i" by simp_all
    have unih: "config x = config ?h \<and> beams_cy x = beams_cy ?h" if "x \<in> set index" "ID x = i" for x
      using uni [OF that(1) h(1)] that(2) h(2) True by simp
    from Cons.IH [OF rest, of ?cfg] obtain cfg' where
      r: "calc_config_ids index ids ?cfg = Inr cfg'" and
      a: "\<And>e. e \<in> set index \<Longrightarrow> ID e \<in> set ids \<Longrightarrow> ID e \<in> set [21, 24, 26] \<Longrightarrow>
                cfg' (ID e) = Some (config_of (ID e) (config e) (beams_cy e))" and
      b: "\<And>j. j \<notin> set ids \<Longrightarrow> cfg' j = ?cfg j" and
      c: "\<And>j. j \<notin> set [21, 24, 26] \<Longrightarrow> cfg' j = ?cfg j"
      by blast
    have n1: "\<not> (\<exists>x\<in>set index. ID x = i \<and> config x \<noteq> config ?h)"
      and n2: "\<not> (\<exists>x\<in>set index. ID x = i \<and> beams_cy x \<noteq> beams_cy ?h)"
      using unih by blast+
    have 1: "calc_config_ids index (i # ids) cfg = Inr cfg'"
      using r by (simp only: calc_config_ids_step [OF True present] n1 n2 if_False)
    have 2: "cfg' (ID e) = Some (config_of (ID e) (config e) (beams_cy e))"
      if "e \<in> set index" "ID e \<in> set (i # ids)" "ID e \<in> set [21, 24, 26]" for e
    proof (cases "ID e \<in> set ids")
      case True
      from a [OF that(1) this that(3)] show ?thesis .
    next
      case False
      with that(2) have i: "ID e = i" by simp
      from b [OF False] i have "cfg' i = ?cfg i" by simp
      with unih [OF that(1) i] i show ?thesis by simp
    qed
    have 3: "cfg' j = cfg j" if "j \<notin> set (i # ids)" for j
      using that b [of j] by simp
    have 4: "cfg' j = cfg j" if "j \<notin> set [21, 24, 26]" for j
    proof -
      from that True have "j \<noteq> i" by blast
      with c [OF that] show ?thesis by simp
    qed
    from 1 2 3 4 show ?thesis by blast
  qed
qed


lemma calc_config_ids_err:
  assumes "\<forall>i\<in>set ids. i \<in> ID ` set index"
    and "x \<in> set index" "y \<in> set index" "ID x = ID y" "ID x \<in> set ids" "ID x \<in> set [21, 24, 26]"
      "config x \<noteq> config y \<or> beams_cy x \<noteq> beams_cy y"
  shows "\<exists>j. j \<in> set [21, 24, 26] \<and>
          ((calc_config_ids index ids cfg = Inl (ConfigNotIdentical j) \<and>
              (\<exists>a\<in>set index. \<exists>b\<in>set index. ID a = j \<and> ID b = j \<and> config a \<noteq> config b)) \<or>
           (calc_config_ids index ids cfg = Inl (BeamsCyNotIdentical j) \<and>
              (\<exists>a\<in>set index. \<exists>b\<in>set index. ID a = j \<and> ID b = j \<and> beams_cy a \<noteq> beams_cy b)))"
  using assms(1,5)
proof (induction ids arbitrary: cfg)
  case Nil
  then show ?case by simp
next
  case (Cons i ids)
  from Cons.prems(1) have present: "i \<in> ID ` set index" and rest: "\<forall>i\<in>set ids. i \<in> ID ` set index"
    by simp_all
  let ?h = "hd (filter (\<lambda>e. ID e = i) index)"
  from hd_filter_ID [OF present] have h: "?h \<in> set index" "ID ?h = i" by simp_all
  show ?case
  proof (cases "i \<in> set [21, 24, 26]")
    case False
    with assms(6) have "ID x \<noteq> i" by blast
    with Cons.prems(2) have "ID x \<in> set ids" by simp
    from Cons.IH [OF rest this, of cfg] show ?thesis
      by (simp only: calc_config_ids_skip [OF False])
  next
    case True
    note step = calc_config_ids_step [OF True present, of ids cfg]
    show ?thesis
    proof (cases "\<exists>x\<in>set index. ID x = i \<and> config x \<noteq> config ?h")
      case c: True
      have 1: "calc_config_ids index (i # ids) cfg = Inl (ConfigNotIdentical i)"
        by (simp only: step c if_True)
      from c h have "\<exists>a\<in>set index. \<exists>b\<in>set index. ID a = i \<and> ID b = i \<and> config a \<noteq> config b"
        by blast
      with 1 True show ?thesis by blast
    next
      case c: False
      show ?thesis
      proof (cases "\<exists>x\<in>set index. ID x = i \<and> beams_cy x \<noteq> beams_cy ?h")
        case b: True
        have 1: "calc_config_ids index (i # ids) cfg = Inl (BeamsCyNotIdentical i)"
          by (simp only: step c b if_True if_False)
        from b h have "\<exists>a\<in>set index. \<exists>b\<in>set index. ID a = i \<and> ID b = i \<and> beams_cy a \<noteq> beams_cy b"
          by blast
        with 1 True show ?thesis by blast
      next
        case b: False
        have "ID x \<noteq> i"
        proof
          assume i: "ID x = i"
          with assms(4) have "ID y = i" by simp
          with i c b assms(2,3) have "config x = config ?h" "config y = config ?h"
            "beams_cy x = beams_cy ?h" "beams_cy y = beams_cy ?h" by blast+
          with assms(7) show False by simp
        qed
        with Cons.prems(2) have "ID x \<in> set ids" by simp
        from Cons.IH [OF rest this] show ?thesis
          by (simp only: step c b if_False)
      qed
    qed
  qed
qed

lemma set_np_unique: "set (np_unique xs) = set xs"
  by (simp add: np_unique_def)


lemma calc_config_err:
  assumes ab: "a \<in> set index" "b \<in> set index" "ID a = ID b" "ID a \<in> set [21, 24, 26]"
      "config a \<noteq> config b \<or> beams_cy a \<noteq> beams_cy b"
  shows "\<exists>e j. calc_config index = Inl e \<and> named_id e = Some j \<and> j \<in> set [21, 24, 26] \<and>
          (\<exists>x\<in>set index. \<exists>y\<in>set index. ID x = j \<and> ID y = j \<and>
             (config x \<noteq> config y \<or> beams_cy x \<noteq> beams_cy y))"
proof -
  have ids: "\<forall>i\<in>set (np_unique (map ID index)). i \<in> ID ` set index"
    by (simp add: set_np_unique)
  from ab(1) have "ID a \<in> set (np_unique (map ID index))" by (simp add: set_np_unique)
  note err = calc_config_ids_err [OF ids ab(1,2,3) this ab(4,5), of Map.empty,
      folded calc_config_def]
  then obtain j where j: "j \<in> set [21, 24, 26]" and
    d: "(calc_config index = Inl (ConfigNotIdentical j) \<and>
          (\<exists>a\<in>set index. \<exists>b\<in>set index. ID a = j \<and> ID b = j \<and> config a \<noteq> config b)) \<or>
       (calc_config index = Inl (BeamsCyNotIdentical j) \<and>
          (\<exists>a\<in>set index. \<exists>b\<in>set index. ID a = j \<and> ID b = j \<and> beams_cy a \<noteq> beams_cy b))"
    by (elim exE conjE)
  from d show ?thesis
  proof (elim disjE conjE bexE)
    fix x y
    assume "calc_config index = Inl (ConfigNotIdentical j)" "x \<in> set index" "y \<in> set index"
      "ID x = j" "ID y = j" "config x \<noteq> config y"
    with j show ?thesis
      by (intro exI [of _ "ConfigNotIdentical j"] exI [of _ j] conjI bexI [of _ x] bexI [of _ y] disjI1)
         simp_all
  next
    fix x y
    assume "calc_config index = Inl (BeamsCyNotIdentical j)" "x \<in> set index" "y \<in> set index"
      "ID x = j" "ID y = j" "beams_cy x \<noteq> beams_cy y"
    with j show ?thesis
      by (intro exI [of _ "BeamsCyNotIdentical j"] exI [of _ j] conjI bexI [of _ x] bexI [of _ y] disjI2)
         simp_all
  qed
qed


lemma calc_config_ok:
  assumes uni: "\<And>x y. x \<in> set index \<Longrightarrow> y \<in> set index \<Longrightarrow> ID x = ID y \<Longrightarrow>
        ID x \<in> set [21, 24, 26] \<Longrightarrow> config x = config y \<and> beams_cy x = beams_cy y"
  shows "\<exists>cfg. calc_config index = Inr cfg \<and>
            (\<forall>e\<in>set index. cfg (ID e) =
               (if ID e \<in> set [21, 24, 26] then Some (config_of (ID e) (config e) (beams_cy e))
                else None)) \<and>
            dom cfg \<subseteq> ID ` set index"
proof -
  have ids: "\<forall>i\<in>set (np_unique (map ID index)). i \<in> ID ` set index"
    by (simp add: set_np_unique)
  have "\<exists>cfg'. calc_config_ids index (np_unique (map ID index)) Map.empty = Inr cfg' \<and>
           (\<forall>e\<in>set index. ID e \<in> set (np_unique (map ID index)) \<longrightarrow> ID e \<in> set [21, 24, 26] \<longrightarrow>
                cfg' (ID e) = Some (config_of (ID e) (config e) (beams_cy e))) \<and>
           (\<forall>i. i \<notin> set (np_unique (map ID index)) \<longrightarrow> cfg' i = Map.empty i) \<and>
           (\<forall>i. i \<notin> set [21, 24, 26] \<longrightarrow> cfg' i = Map.empty i)"
  proof (rule calc_config_ids_ok [OF ids])
    fix x y
    assume "x \<in> set index" "y \<in> set index" "ID x = ID y" "ID x \<in> set [21, 24, 26]"
    then show "config x = config y \<and> beams_cy x = beams_cy y" by (rule uni)
  qed
  then obtain cfg where
    r: "calc_config_ids index (np_unique (map ID index)) Map.empty = Inr cfg" and
    a0: "\<forall>e\<in>set index. ID e \<in> set (np_unique (map ID index)) \<longrightarrow> ID e \<in> set [21, 24, 26] \<longrightarrow>
                  cfg (ID e) = Some (config_of (ID e) (config e) (beams_cy e))" and
    b0: "\<forall>i. i \<notin> set (np_unique (map ID index)) \<longrightarrow> cfg i = Map.empty i" and
    c0: "\<forall>i. i \<notin> set [21, 24, 26] \<longrightarrow> cfg i = Map.empty i"
    by (elim exE conjE)
  have 1: "\<forall>e\<in>set index. cfg (ID e) =
             (if ID e \<in> set [21, 24, 26] then Some (config_of (ID e) (config e) (beams_cy e))
              else None)"
  proof
    fix e assume e: "e \<in> set index"
    then have m: "ID e \<in> set (np_unique (map ID index))" by (simp add: set_np_unique)
    show "cfg (ID e) =
             (if ID e \<in> set [21, 24, 26] then Some (config_of (ID e) (config e) (beams_cy e))
              else None)"
    proof (cases "ID e \<in> set [21, 24, 26]")
      case True
      from a0 [rule_format, OF e m True] True show ?thesis by (simp only: if_True)
    next
      case False
      from c0 [rule_format, OF False] False show ?thesis by (simp only: if_False)
    qed
  qed
  have 2: "dom cfg \<subseteq> ID ` set index"
  proof
    fix i assume "i \<in> dom cfg"
    then obtain v where v: "cfg i = Some v" by (auto simp: dom_def)
    have "i \<in> set (np_unique (map ID index))"
    proof (rule ccontr)
      assume "i \<notin> set (np_unique (map ID index))"
      from b0 [rule_format, OF this] v show False by simp
    qed
    then show "i \<in> ID ` set index" by (simp add: set_np_unique)
  qed
  from r have "calc_config index = Inr cfg" by (simp only: calc_config_def)
  with 1 2 show ?thesis by (intro exI [of _ cfg] conjI)
qed

text \<open>The decoded dictionary, key by key.\<close>

lemma getbit_bit: "getbit val n = bit val n"
  by (simp add: getbit_def and_one_eq bit_iff_odd_drop_bit odd_iff_mod_2_eq_one)

lemma config_of_explicit:
  assumes "i \<in> set [21, 24, 26]"
  shows "config_of i c b = map_of
     [(''press_valid'', CBool (bit c 0)),
      (''temp_valid'', CBool (bit c 1)),
      (''compass_valid'', CBool (bit c 2)),
      (''tilt_valid'', CBool (bit c 3)),
      (''vel'', CBool (bit c 5)),
      (''amp'', CBool (bit c 6)),
      (''corr'', CBool (bit c 7)),
      (''alt'', CBool (bit c 8)),
      (''alt_raw'', CBool (bit c 9)),
      (''ast'', CBool (bit c 10)),
      (''echo'', CBool (bit c 11)),
      (''ahrs'', CBool (bit c 12)),
      (''p_gd'', CBool (bit c 13)),
      (''std'', CBool (bit c 14)),
      (''ncells'', CInt (take_bit 10 b)),
      (''nbeams'', CInt (drop_bit 12 b)),
      (''_config'', CInt c),
      (''_beams_cy'', CInt b)]"
proof -
  from assms have i: "i \<noteq> 28" by auto
  have "take_bit 10 b = b AND (2 ^ 10 - 1)"
    by (simp only: take_bit_eq_mask mask_eq_exp_minus_1)
  then have m: "b AND 1023 = take_bit 10 b" by simp
  show ?thesis
    unfolding config_of_def headconfig_int2dict_def beams_cy_int2dict_def getbit_bit
    using i by (intro ext) (simp add: m map_add_def)
qed

text \<open>
  Claim C4: when the index holds two entries of one recognised record id whose
  \<open>config\<close> or \<open>beams_cy\<close> values differ, \<open>calc_config\<close> raises an error that names
  a record id with such entries; when the entries of every recognised record id carry
  the same values, it returns the decoded configuration, and nothing else: under each
  recognised id of the index a dictionary whose keys are the fourteen flags, each the
  bit of \<open>config\<close> at its position (bits 0 to 3 and 5 to 14), \<open>ncells\<close> (the low ten bits
  of \<open>beams_cy\<close>), \<open>nbeams\<close> (its bits from 12 up), and the two raw values under
  \<open>_config\<close> and \<open>_beams_cy\<close>; the key \<open>cy\<close> has been popped.
\<close>

theorem calc_config_uniform:
  "(a \<in> set index \<and> b \<in> set index \<and> ID a = ID b \<and> ID a \<in> set [21, 24, 26] \<and>
      (config a \<noteq> config b \<or> beams_cy a \<noteq> beams_cy b) \<longrightarrow>
     (\<exists>e j. calc_config index = Inl e \<and> named_id e = Some j \<and> j \<in> set [21, 24, 26] \<and>
        (\<exists>x\<in>set index. \<exists>y\<in>set index. ID x = j \<and> ID y = j \<and>
           (config x \<noteq> config y \<or> beams_cy x \<noteq> beams_cy y))))
   \<and> ((\<forall>x\<in>set index. \<forall>y\<in>set index. ID x = ID y \<and> ID x \<in> set [21, 24, 26] \<longrightarrow>
          config x = config y \<and> beams_cy x = beams_cy y) \<longrightarrow>
       (\<exists>cfg. calc_config index = Inr cfg \<and>
          (\<forall>e\<in>set index. cfg (ID e) =
             (if ID e \<in> set [21, 24, 26]
              then Some (map_of
                [(''press_valid'', CBool (bit (config e) 0)),
                 (''temp_valid'', CBool (bit (config e) 1)),
                 (''compass_valid'', CBool (bit (config e) 2)),
                 (''tilt_valid'', CBool (bit (config e) 3)),
                 (''vel'', CBool (bit (config e) 5)),
                 (''amp'', CBool (bit (config e) 6)),
                 (''corr'', CBool (bit (config e) 7)),
                 (''alt'', CBool (bit (config e) 8)),
                 (''alt_raw'', CBool (bit (config e) 9)),
                 (''ast'', CBool (bit (config e) 10)),
                 (''echo'', CBool (bit (config e) 11)),
                 (''ahrs'', CBool (bit (config e) 12)),
                 (''p_gd'', CBool (bit (config e) 13)),
                 (''std'', CBool (bit (config e) 14)),
                 (''ncells'', CInt (take_bit 10 (beams_cy e))),
                 (''nbeams'', CInt (drop_bit 12 (beams_cy e))),
                 (''_config'', CInt (config e)),
                 (''_beams_cy'', CInt (beams_cy e))])
              else None)) \<and>
          dom cfg \<subseteq> ID ` set index))"
proof (rule conjI; rule impI)
  assume c: "a \<in> set index \<and> b \<in> set index \<and> ID a = ID b \<and> ID a \<in> set [21, 24, 26] \<and>
      (config a \<noteq> config b \<or> beams_cy a \<noteq> beams_cy b)"
  note ab = c [THEN conjunct1] c [THEN conjunct2, THEN conjunct1]
    c [THEN conjunct2, THEN conjunct2, THEN conjunct1]
    c [THEN conjunct2, THEN conjunct2, THEN conjunct2, THEN conjunct1]
    c [THEN conjunct2, THEN conjunct2, THEN conjunct2, THEN conjunct2]
  from ab show "\<exists>e j. calc_config index = Inl e \<and> named_id e = Some j \<and> j \<in> set [21, 24, 26] \<and>
        (\<exists>x\<in>set index. \<exists>y\<in>set index. ID x = j \<and> ID y = j \<and>
           (config x \<noteq> config y \<or> beams_cy x \<noteq> beams_cy y))"
    by (rule calc_config_err)
next
  let ?d = "\<lambda>e. map_of
                [(''press_valid'', CBool (bit (config e) 0)),
                 (''temp_valid'', CBool (bit (config e) 1)),
                 (''compass_valid'', CBool (bit (config e) 2)),
                 (''tilt_valid'', CBool (bit (config e) 3)),
                 (''vel'', CBool (bit (config e) 5)),
                 (''amp'', CBool (bit (config e) 6)),
                 (''corr'', CBool (bit (config e) 7)),
                 (''alt'', CBool (bit (config e) 8)),
                 (''alt_raw'', CBool (bit (config e) 9)),
                 (''ast'', CBool (bit (config e) 10)),
                 (''echo'', CBool (bit (config e) 11)),
                 (''ahrs'', CBool (bit (config e) 12)),
                 (''p_gd'', CBool (bit (config e) 13)),
                 (''std'', CBool (bit (config e) 14)),
                 (''ncells'', CInt (take_bit 10 (beams_cy e))),
                 (''nbeams'', CInt (drop_bit 12 (beams_cy e))),
                 (''_config'', CInt (config e)),
                 (''_beams_cy'', CInt (beams_cy e))]"
  assume uni: "\<forall>x\<in>set index. \<forall>y\<in>set index. ID x = ID y \<and> ID x \<in> set [21, 24, 26] \<longrightarrow>
          config x = config y \<and> beams_cy x = beams_cy y"
  have "\<exists>cfg. calc_config index = Inr cfg \<and>
          (\<forall>e\<in>set index. cfg (ID e) =
             (if ID e \<in> set [21, 24, 26] then Some (config_of (ID e) (config e) (beams_cy e))
              else None)) \<and>
          dom cfg \<subseteq> ID ` set index"
  proof (rule calc_config_ok)
    fix x y
    assume h: "x \<in> set index" "y \<in> set index" "ID x = ID y" "ID x \<in> set [21, 24, 26]"
    from uni [THEN bspec, THEN bspec, THEN mp, OF h(1) h(2) conjI [OF h(3) h(4)]]
    show "config x = config y \<and> beams_cy x = beams_cy y" .
  qed
  then obtain cfg where r: "calc_config index = Inr cfg"
    and a: "\<forall>e\<in>set index. cfg (ID e) =
             (if ID e \<in> set [21, 24, 26] then Some (config_of (ID e) (config e) (beams_cy e))
              else None)"
    and d: "dom cfg \<subseteq> ID ` set index"
    by (elim exE conjE)
  have e: "\<forall>e\<in>set index. cfg (ID e) = (if ID e \<in> set [21, 24, 26] then Some (?d e) else None)"
  proof
    fix e assume e: "e \<in> set index"
    show "cfg (ID e) = (if ID e \<in> set [21, 24, 26] then Some (?d e) else None)"
    proof (cases "ID e \<in> set [21, 24, 26]")
      case True
      from a [THEN bspec, OF e] True
      have "cfg (ID e) = Some (config_of (ID e) (config e) (beams_cy e))"
        by (simp only: if_True)
      also have "config_of (ID e) (config e) (beams_cy e) = ?d e"
        by (rule config_of_explicit [OF True])
      finally show ?thesis using True by (simp only: if_True)
    next
      case False
      from a [THEN bspec, OF e] False show ?thesis by (simp only: if_False)
    qed
  qed
  from r e d show "\<exists>cfg. calc_config index = Inr cfg \<and>
          (\<forall>e\<in>set index. cfg (ID e) = (if ID e \<in> set [21, 24, 26] then Some (?d e) else None)) \<and>
          dom cfg \<subseteq> ID ` set index"
    by (intro exI [of _ cfg] conjI)
qed

theorem calc_config_uniform_witness:
  "calc_config [test_entry 0 0, (test_entry 0 86)\<lparr>config := 1\<rparr>] = Inl (ConfigNotIdentical 21)
   \<and> (\<exists>e j. calc_config [test_entry 0 0, (test_entry 0 86)\<lparr>config := 1\<rparr>] = Inl e \<and>
        named_id e = Some j \<and> j \<in> set [21, 24, 26] \<and>
        (\<exists>x\<in>set [test_entry 0 0, (test_entry 0 86)\<lparr>config := 1\<rparr>].
         \<exists>y\<in>set [test_entry 0 0, (test_entry 0 86)\<lparr>config := 1\<rparr>]. ID x = j \<and> ID y = j \<and>
           (config x \<noteq> config y \<or> beams_cy x \<noteq> beams_cy y)))
   \<and> (\<exists>cfg. calc_config [test_entry 0 0, (test_entry 1 86)\<lparr>ID := 28, config := 1\<rparr>, test_entry 1 172] = Inr cfg \<and>
          (\<forall>e\<in>set [test_entry 0 0, (test_entry 1 86)\<lparr>ID := 28, config := 1\<rparr>, test_entry 1 172]. cfg (ID e) =
             (if ID e \<in> set [21, 24, 26]
              then Some (map_of
                [(''press_valid'', CBool (bit (config e) 0)),
                 (''temp_valid'', CBool (bit (config e) 1)),
                 (''compass_valid'', CBool (bit (config e) 2)),
                 (''tilt_valid'', CBool (bit (config e) 3)),
                 (''vel'', CBool (bit (config e) 5)),
                 (''amp'', CBool (bit (config e) 6)),
                 (''corr'', CBool (bit (config e) 7)),
                 (''alt'', CBool (bit (config e) 8)),
                 (''alt_raw'', CBool (bit (config e) 9)),
                 (''ast'', CBool (bit (config e) 10)),
                 (''echo'', CBool (bit (config e) 11)),
                 (''ahrs'', CBool (bit (config e) 12)),
                 (''p_gd'', CBool (bit (config e) 13)),
                 (''std'', CBool (bit (config e) 14)),
                 (''ncells'', CInt (take_bit 10 (beams_cy e))),
                 (''nbeams'', CInt (drop_bit 12 (beams_cy e))),
                 (''_config'', CInt (config e)),
                 (''_beams_cy'', CInt (beams_cy e))])
              else None)) \<and>
          dom cfg \<subseteq> ID ` set [test_entry 0 0, (test_entry 1 86)\<lparr>ID := 28, config := 1\<rparr>, test_entry 1 172])
   \<and> (case calc_config [(test_entry 0 0)\<lparr>config := 1, beams_cy := 8197\<rparr>] of Inl e \<Rightarrow> False
      | Inr cfg \<Rightarrow> (case cfg 21 of None \<Rightarrow> False
          | Some d \<Rightarrow> d ''press_valid'' = Some (CBool True) \<and> d ''temp_valid'' = Some (CBool False)
               \<and> d ''ncells'' = Some (CInt 5) \<and> d ''nbeams'' = Some (CInt 2) \<and> d ''cy'' = None))"
proof -
  let ?bad = "[test_entry 0 0, (test_entry 0 86)\<lparr>config := 1\<rparr>]"
  let ?ok = "[test_entry 0 0, (test_entry 1 86)\<lparr>ID := 28, config := 1\<rparr>, test_entry 1 172]"
  have "case calc_config ?bad of Inl e \<Rightarrow> e = ConfigNotIdentical 21 | Inr c \<Rightarrow> False"
    by code_simp
  then have 0: "calc_config ?bad = Inl (ConfigNotIdentical 21)"
    by (cases "calc_config ?bad") simp_all
  have 1: "test_entry 0 0 \<in> set ?bad \<and> (test_entry 0 86)\<lparr>config := 1\<rparr> \<in> set ?bad \<and>
      ID (test_entry 0 0) = ID ((test_entry 0 86)\<lparr>config := 1\<rparr>) \<and>
      ID (test_entry 0 0) \<in> set [21, 24, 26] \<and>
      (config (test_entry 0 0) \<noteq> config ((test_entry 0 86)\<lparr>config := 1\<rparr>) \<or>
       beams_cy (test_entry 0 0) \<noteq> beams_cy ((test_entry 0 86)\<lparr>config := 1\<rparr>))"
    by (simp add: test_entry_def)
  have 2: "\<forall>x\<in>set ?ok. \<forall>y\<in>set ?ok. ID x = ID y \<and> ID x \<in> set [21, 24, 26] \<longrightarrow>
          config x = config y \<and> beams_cy x = beams_cy y"
    by (simp add: test_entry_def)
  have 3: "case calc_config [(test_entry 0 0)\<lparr>config := 1, beams_cy := 8197\<rparr>] of Inl e \<Rightarrow> False
      | Inr cfg \<Rightarrow> (case cfg 21 of None \<Rightarrow> False
          | Some d \<Rightarrow> d ''press_valid'' = Some (CBool True) \<and> d ''temp_valid'' = Some (CBool False)
               \<and> d ''ncells'' = Some (CInt 5) \<and> d ''nbeams'' = Some (CInt 2) \<and> d ''cy'' = None)"
    by code_simp
  from 0 calc_config_uniform [where index = ?bad and a = "test_entry 0 0"
        and b = "(test_entry 0 86)\<lparr>config := 1\<rparr>", THEN conjunct1, THEN mp, OF 1]
    calc_config_uniform [where index = ?ok, THEN conjunct2, THEN mp, OF 2] 3
  show ?thesis by (intro conjI)
qed

section \<open>Properties of the rotations\<close>

subsection \<open>Rotating towards the frame the data are in\<close>

text \<open>
  Claim C3 says that a rotation towards the frame that the data set is tagged with
  leaves the velocity and the tag as they are. \<open>earth2principal\<close> returns at once
  when the tag is \<open>principal\<close>; \<open>principal2earth\<close> has no such test. On the data set
  \<open>adv_example\<close>, tagged \<open>earth\<close>, with the principal angle \<open>pi\<close>, it turns the
  velocity (1, 0) into (-1, 0) (with exact arithmetic and no rounding).
\<close>

theorem principal2earth_rotates_earth_data:
  "props adv_example ''coord_sys'' = Some (PStr ''earth'')
   \<and> u adv_example = [1] \<and> v adv_example = [0]
   \<and> principal2earth (\<lambda>x. x) adv_example = adv_example\<lparr>u := [- 1], v := [0]\<rparr>
   \<and> earth2principal (\<lambda>x. x)
        (adv_example\<lparr>props := (props adv_example)(''coord_sys'' \<mapsto> PStr ''principal'')\<rparr>) =
      Inr (adv_example\<lparr>props := (props adv_example)(''coord_sys'' \<mapsto> PStr ''principal'')\<rparr>)"
  by (simp add: principal2earth_def earth2principal_def adv_example_def U_rot_def)

subsection \<open>What the principal-axes rotations change\<close>

text \<open>
  Claim C10: \<open>earth2principal\<close> and \<open>principal2earth\<close> change nothing of a data set
  but \<open>u\<close>, \<open>v\<close> and the entry \<open>coord_sys\<close> of \<open>props\<close>; \<open>w\<close>, every other
  field (those of an extension of the record too) and every other entry of \<open>props\<close>
  stay as they were.
\<close>

theorem principal_rotations_frame:
  "(earth2principal single advo = Inr advo' \<longrightarrow>
      w advo' = w advo \<and>
      (\<exists>u' v' t. advo' = advo\<lparr>u := u', v := v', props := (props advo)(''coord_sys'' := t)\<rparr>))
   \<and> w (principal2earth single advo) = w advo
   \<and> (\<exists>u' v' t. principal2earth single advo =
         advo\<lparr>u := u', v := v', props := (props advo)(''coord_sys'' := t)\<rparr>)"
proof (intro conjI impI)
  assume r: "earth2principal single advo = Inr advo'"
  show "w advo' = w advo"
    using r by (auto simp: earth2principal_def Let_def split: option.splits if_splits)
  show "\<exists>u' v' t. advo' = advo\<lparr>u := u', v := v', props := (props advo)(''coord_sys'' := t)\<rparr>"
  proof (cases "props advo ''coord_sys'' = Some (PStr ''principal'')")
    case True
    with r have "advo' = advo" by (simp add: earth2principal_def)
    moreover from True have "advo = advo\<lparr>u := u advo, v := v advo,
        props := (props advo)(''coord_sys'' := Some (PStr ''principal''))\<rparr>"
      by (simp add: fun_upd_idem)
    ultimately show ?thesis by metis
  next
    case False
    with r have "advo' = advo\<lparr>u := map (\<lambda>z. single (Re z)) (U_rot advo (- principal_angle advo)),
        v := map (\<lambda>z. single (Im z)) (U_rot advo (- principal_angle advo)),
        props := (props advo)(''coord_sys'' := Some (PStr ''principal''))\<rparr>"
      by (auto simp: earth2principal_def Let_def split: option.splits if_splits)
    then show ?thesis by blast
  qed
next
  show "w (principal2earth single advo) = w advo"
    by (simp add: principal2earth_def Let_def)
  have "principal2earth single advo =
      advo\<lparr>u := map (\<lambda>z. single (Re z)) (U_rot advo (principal_angle advo)),
        v := map (\<lambda>z. single (Im z)) (U_rot advo (principal_angle advo)),
        props := (props advo)(''coord_sys'' := Some (PStr ''earth''))\<rparr>"
    by (simp add: principal2earth_def Let_def)
  then show "\<exists>u' v' t. principal2earth single advo =
         advo\<lparr>u := u', v := v', props := (props advo)(''coord_sys'' := t)\<rparr>" by blast
qed

theorem principal_rotations_frame_witness:
  "earth2principal (\<lambda>x. x) adv_example =
     Inr (adv_example\<lparr>u := [- 1], v := [0],
            props := (props adv_example)(''coord_sys'' \<mapsto> PStr ''principal'')\<rparr>)
   \<and> w (adv_example\<lparr>u := [- 1], v := [0],
            props := (props adv_example)(''coord_sys'' \<mapsto> PStr ''principal'')\<rparr>) = w adv_example
   \<and> (\<exists>u' v' t. adv_example\<lparr>u := [- 1], v := [0],
            props := (props adv_example)(''coord_sys'' \<mapsto> PStr ''principal'')\<rparr> =
          adv_example\<lparr>u := u', v := v', props := (props adv_example)(''coord_sys'' := t)\<rparr>)"
proof -
  have r: "earth2principal (\<lambda>x. x) adv_example =
     Inr (adv_example\<lparr>u := [- 1], v := [0],
            props := (props adv_example)(''coord_sys'' \<mapsto> PStr ''principal'')\<rparr>)"
    by (simp add: earth2principal_def adv_example_def U_rot_def)
  from principal_rotations_frame [of "\<lambda>x. x" adv_example, THEN conjunct1, THEN mp, OF r] r
  show ?thesis by blast
qed

subsection \<open>Missing declination and heading offset\<close>

lemma store_rotated_missing_key:
  assumes k: "props advo k = None" "k \<noteq> ''coord_sys''"
  shows "store_rotated single advo ws hh pp rr =
     \<lparr>raised = raised (store_rotated single (advo\<lparr>props := (props advo)(k \<mapsto> x)\<rparr>) ws' hh pp rr),
      dataset = (dataset (store_rotated single (advo\<lparr>props := (props advo)(k \<mapsto> x)\<rparr>) ws' hh pp rr))
         \<lparr>props := (props (dataset (store_rotated single
               (advo\<lparr>props := (props advo)(k \<mapsto> x)\<rparr>) ws' hh pp rr)))(k := None)\<rparr>,
      warned = ws\<rparr>"
proof -
  have p1: "((props advo)(k \<mapsto> x, ''coord_sys'' \<mapsto> y))(k := None) = (props advo)(''coord_sys'' \<mapsto> y)" for y
    using k by (auto simp: fun_eq_iff)
  have p2: "(props advo)(k := None) = props advo"
    using k by (auto simp: fun_eq_iff)
  have s: "save_inst (advo\<lparr>props := q\<rparr>) = (save_inst advo)\<lparr>props := q\<rparr>" for q
    by (simp add: save_inst_def)
  have ps: "props (save_inst advo) = props advo" by (simp add: save_inst_def)
  show ?thesis
    by (simp add: store_rotated_def Let_def s ps p1 p2 split: sum.splits prod.splits)
qed

lemma store_rotated_warned: "warned (store_rotated single advo ws hh pp rr) = ws"
  by (simp add: store_rotated_def Let_def split: sum.splits prod.splits)

lemma angles_rad_props: "angles_rad (advo\<lparr>props := p\<rparr>) m = angles_rad advo m"
  by (simp add: angles_rad_def)

lemma roll_down_props: "roll_down (advo\<lparr>props := p\<rparr>) rr = roll_down advo rr"
  by (simp add: roll_down_def)

lemma add_angle_zero: "add_angle (Some 0) hh = hh" "add_angle None hh = hh"
  by (simp_all add: add_angle_def)

text \<open>
  Claim C9 says that \<open>inst2earth\<close> warns when the declination or the heading offset
  is missing. \<open>adv_example\<close> has a declination and no heading offset: \<open>inst2earth\<close>
  returns, and issues no warning.
\<close>

theorem heading_offset_absent_no_warning:
  "props adv_example ''heading_offset'' = None
   \<and> raised (inst2earth (\<lambda>x. x) adv_example False) = None
   \<and> warned (inst2earth (\<lambda>x. x) adv_example False) = []"
  by (simp add: inst2earth_def store_rotated_def save_inst_def adv_example_def prop_radians_def getattr_def
        angles_rad_def add_angle_def roll_down_def
        rotate_uvw_def np_add_def np_mul_def np_sub_def arr_op_def bop_def Let_def)

text \<open>
  Claim C9 as the code has it. Without a declination, \<open>inst2earth\<close> ends as it ends
  with the declination 0: with the same exception or none, and with the same data
  (the entry \<open>declination\<close> apart); it issues one warning more, also when it raises
  later. Without a heading offset it ends as it ends with the heading offset 0 (the
  entry \<open>heading_offset\<close> apart) and issues the same warnings, so none for the
  heading offset. Neither absence makes the call raise where it does not raise with
  the value 0.
\<close>

theorem inst2earth_missing_inputs:
  "(props advo ''declination'' = None \<longrightarrow>
      inst2earth single advo m =
        \<lparr>raised = raised (inst2earth single (advo\<lparr>props := (props advo)(''declination'' \<mapsto> PNum 0)\<rparr>) m),
         dataset = (dataset (inst2earth single (advo\<lparr>props := (props advo)(''declination'' \<mapsto> PNum 0)\<rparr>) m))
            \<lparr>props := (props (dataset (inst2earth single
                 (advo\<lparr>props := (props advo)(''declination'' \<mapsto> PNum 0)\<rparr>) m)))(''declination'' := None)\<rparr>,
         warned = NoDeclination #
            warned (inst2earth single (advo\<lparr>props := (props advo)(''declination'' \<mapsto> PNum 0)\<rparr>) m)\<rparr>)
   \<and> (props advo ''heading_offset'' = None \<longrightarrow>
      inst2earth single advo m =
        \<lparr>raised = raised (inst2earth single (advo\<lparr>props := (props advo)(''heading_offset'' \<mapsto> PNum 0)\<rparr>) m),
         dataset = (dataset (inst2earth single (advo\<lparr>props := (props advo)(''heading_offset'' \<mapsto> PNum 0)\<rparr>) m))
            \<lparr>props := (props (dataset (inst2earth single
                 (advo\<lparr>props := (props advo)(''heading_offset'' \<mapsto> PNum 0)\<rparr>) m)))(''heading_offset'' := None)\<rparr>,
         warned = warned (inst2earth single (advo\<lparr>props := (props advo)(''heading_offset'' \<mapsto> PNum 0)\<rparr>) m)\<rparr>)"
proof (intro conjI impI)
  assume d: "props advo ''declination'' = None"
  let ?p = "(props advo)(''declination'' \<mapsto> PNum 0)"
  let ?X = "inst2earth single (advo\<lparr>props := ?p\<rparr>) m"
  obtain rr pp hh where a: "angles_rad advo m = (rr, pp, hh)" by (cases "angles_rad advo m")
  have p2: "(props advo)(''declination'' := None) = props advo"
    using d by (auto simp: fun_eq_iff)
  have dl: "prop_radians (props advo) ''declination'' = Inr None"
    using d by (simp add: prop_radians_def)
  have dr: "prop_radians ?p ''declination'' = Inr (Some 0)"
    by (simp add: prop_radians_def)
  have ho: "prop_radians ?p ''heading_offset'' = prop_radians (props advo) ''heading_offset''"
    by (simp add: prop_radians_def)
  show "inst2earth single advo m =
        \<lparr>raised = raised ?X, dataset = (dataset ?X)\<lparr>props := (props (dataset ?X))(''declination'' := None)\<rparr>,
         warned = NoDeclination # warned ?X\<rparr>"
  proof (cases "prop_radians (props advo) ''heading_offset''")
    case (Inl e)
    have "inst2earth single advo m = \<lparr>raised = Some e, dataset = advo, warned = [NoDeclination]\<rparr>"
      by (simp add: inst2earth_def a dl Inl)
    moreover have "?X = \<lparr>raised = Some e, dataset = advo\<lparr>props := ?p\<rparr>, warned = []\<rparr>"
      by (simp add: inst2earth_def angles_rad_props a dr ho Inl)
    ultimately show ?thesis by (simp add: p2)
  next
    case (Inr offs)
    let ?hh = "add_angle offs hh"
    have l: "inst2earth single advo m =
        store_rotated single advo [NoDeclination] ?hh pp (roll_down advo rr)"
      by (simp add: inst2earth_def a dl Inr add_angle_zero)
    have r: "?X = store_rotated single (advo\<lparr>props := ?p\<rparr>) [] ?hh pp (roll_down advo rr)"
      by (simp add: inst2earth_def angles_rad_props roll_down_props a dr ho Inr add_angle_zero)
    have "store_rotated single advo [NoDeclination] ?hh pp (roll_down advo rr) =
        \<lparr>raised = raised ?X, dataset = (dataset ?X)\<lparr>props := (props (dataset ?X))(''declination'' := None)\<rparr>,
         warned = [NoDeclination]\<rparr>"
      unfolding r by (rule store_rotated_missing_key [OF d]) simp
    moreover have "warned ?X = []" unfolding r by (rule store_rotated_warned)
    ultimately show ?thesis using l by simp
  qed
next
  assume d: "props advo ''heading_offset'' = None"
  let ?p = "(props advo)(''heading_offset'' \<mapsto> PNum 0)"
  let ?X = "inst2earth single (advo\<lparr>props := ?p\<rparr>) m"
  obtain rr pp hh where a: "angles_rad advo m = (rr, pp, hh)" by (cases "angles_rad advo m")
  have p2: "(props advo)(''heading_offset'' := None) = props advo"
    using d by (auto simp: fun_eq_iff)
  have hl: "prop_radians (props advo) ''heading_offset'' = Inr None"
    using d by (simp add: prop_radians_def)
  have hr: "prop_radians ?p ''heading_offset'' = Inr (Some 0)"
    by (simp add: prop_radians_def)
  have de: "prop_radians ?p ''declination'' = prop_radians (props advo) ''declination''"
    by (simp add: prop_radians_def)
  show "inst2earth single advo m =
        \<lparr>raised = raised ?X, dataset = (dataset ?X)\<lparr>props := (props (dataset ?X))(''heading_offset'' := None)\<rparr>,
         warned = warned ?X\<rparr>"
  proof (cases "prop_radians (props advo) ''declination''")
    case (Inl e)
    have "inst2earth single advo m = \<lparr>raised = Some e, dataset = advo, warned = []\<rparr>"
      by (simp add: inst2earth_def a Inl)
    moreover have "?X = \<lparr>raised = Some e, dataset = advo\<lparr>props := ?p\<rparr>, warned = []\<rparr>"
      by (simp add: inst2earth_def angles_rad_props a de Inl)
    ultimately show ?thesis by (simp add: p2)
  next
    case (Inr decl)
    let ?hh = "add_angle decl hh"
    let ?ws = "case decl of None \<Rightarrow> [NoDeclination] | Some d \<Rightarrow> []"
    have l: "inst2earth single advo m = store_rotated single advo ?ws ?hh pp (roll_down advo rr)"
      by (simp add: inst2earth_def a hl Inr add_angle_zero)
    have r: "?X = store_rotated single (advo\<lparr>props := ?p\<rparr>) ?ws ?hh pp (roll_down advo rr)"
      by (simp add: inst2earth_def angles_rad_props roll_down_props a hr de Inr add_angle_zero)
    have "store_rotated single advo ?ws ?hh pp (roll_down advo rr) =
        \<lparr>raised = raised ?X, dataset = (dataset ?X)\<lparr>props := (props (dataset ?X))(''heading_offset'' := None)\<rparr>,
         warned = ?ws\<rparr>"
      unfolding r by (rule store_rotated_missing_key [OF d]) simp
    moreover have "warned ?X = ?ws" unfolding r by (rule store_rotated_warned)
    ultimately show ?thesis using l by simp
  qed
qed


theorem inst2earth_missing_inputs_witness:
  "props (adv_example\<lparr>props := [''coord_sys'' \<mapsto> PStr ''earth'']\<rparr>) ''declination'' = None
   \<and> raised (inst2earth (\<lambda>x. x) (adv_example\<lparr>props := [''coord_sys'' \<mapsto> PStr ''earth'']\<rparr>) False) = None
   \<and> warned (inst2earth (\<lambda>x. x) (adv_example\<lparr>props := [''coord_sys'' \<mapsto> PStr ''earth'']\<rparr>) False)
        = [NoDeclination]
   \<and> inst2earth (\<lambda>x. x) (adv_example\<lparr>props := [''coord_sys'' \<mapsto> PStr ''earth'']\<rparr>) False =
        \<lparr>raised = raised (inst2earth (\<lambda>x. x)
            (adv_example\<lparr>props := [''coord_sys'' \<mapsto> PStr ''earth'', ''declination'' \<mapsto> PNum 0]\<rparr>) False),
         dataset = (dataset (inst2earth (\<lambda>x. x)
            (adv_example\<lparr>props := [''coord_sys'' \<mapsto> PStr ''earth'', ''declination'' \<mapsto> PNum 0]\<rparr>) False))
            \<lparr>props := (props (dataset (inst2earth (\<lambda>x. x)
               (adv_example\<lparr>props := [''coord_sys'' \<mapsto> PStr ''earth'', ''declination'' \<mapsto> PNum 0]\<rparr>) False)))
               (''declination'' := None)\<rparr>,
         warned = NoDeclination # warned (inst2earth (\<lambda>x. x)
            (adv_example\<lparr>props := [''coord_sys'' \<mapsto> PStr ''earth'', ''declination'' \<mapsto> PNum 0]\<rparr>) False)\<rparr>
   \<and> props (adv_example\<lparr>props := [''heading_offset'' \<mapsto> PStr ''north'']\<rparr>) ''declination'' = None
   \<and> raised (inst2earth (\<lambda>x. x) (adv_example\<lparr>props := [''heading_offset'' \<mapsto> PStr ''north'']\<rparr>) False)
        = Some TypeError
   \<and> warned (inst2earth (\<lambda>x. x) (adv_example\<lparr>props := [''heading_offset'' \<mapsto> PStr ''north'']\<rparr>) False)
        = [NoDeclination]
   \<and> inst2earth (\<lambda>x. x) (adv_example\<lparr>props := [''heading_offset'' \<mapsto> PStr ''north'']\<rparr>) False =
        \<lparr>raised = raised (inst2earth (\<lambda>x. x)
            (adv_example\<lparr>props := [''heading_offset'' \<mapsto> PStr ''north'', ''declination'' \<mapsto> PNum 0]\<rparr>) False),
         dataset = (dataset (inst2earth (\<lambda>x. x)
            (adv_example\<lparr>props := [''heading_offset'' \<mapsto> PStr ''north'', ''declination'' \<mapsto> PNum 0]\<rparr>) False))
            \<lparr>props := (props (dataset (inst2earth (\<lambda>x. x)
               (adv_example\<lparr>props := [''heading_offset'' \<mapsto> PStr ''north'', ''declination'' \<mapsto> PNum 0]\<rparr>) False)))
               (''declination'' := None)\<rparr>,
         warned = NoDeclination # warned (inst2earth (\<lambda>x. x)
            (adv_example\<lparr>props := [''heading_offset'' \<mapsto> PStr ''north'', ''declination'' \<mapsto> PNum 0]\<rparr>) False)\<rparr>
   \<and> props adv_example ''heading_offset'' = None
   \<and> inst2earth (\<lambda>x. x) adv_example False =
        \<lparr>raised = raised (inst2earth (\<lambda>x. x)
            (adv_example\<lparr>props := (props adv_example)(''heading_offset'' \<mapsto> PNum 0)\<rparr>) False),
         dataset = (dataset (inst2earth (\<lambda>x. x)
            (adv_example\<lparr>props := (props adv_example)(''heading_offset'' \<mapsto> PNum 0)\<rparr>) False))
            \<lparr>props := (props (dataset (inst2earth (\<lambda>x. x)
               (adv_example\<lparr>props := (props adv_example)(''heading_offset'' \<mapsto> PNum 0)\<rparr>) False)))
               (''heading_offset'' := None)\<rparr>,
         warned = warned (inst2earth (\<lambda>x. x)
            (adv_example\<lparr>props := (props adv_example)(''heading_offset'' \<mapsto> PNum 0)\<rparr>) False)\<rparr>"
proof -
  let ?d = "adv_example\<lparr>props := [''coord_sys'' \<mapsto> PStr ''earth'']\<rparr>"
  let ?e = "adv_example\<lparr>props := [''heading_offset'' \<mapsto> PStr ''north'']\<rparr>"
  have 1: "props ?d ''declination'' = None" by simp
  have 2: "raised (inst2earth (\<lambda>x. x) ?d False) = None"
    by (simp add: inst2earth_def store_rotated_def save_inst_def adv_example_def prop_radians_def
        getattr_def angles_rad_def add_angle_def roll_down_def
        rotate_uvw_def np_add_def np_mul_def np_sub_def arr_op_def bop_def Let_def)
  have 3: "warned (inst2earth (\<lambda>x. x) ?d False) = [NoDeclination]"
    by (simp add: inst2earth_def store_rotated_def save_inst_def adv_example_def prop_radians_def
        getattr_def angles_rad_def add_angle_def roll_down_def
        rotate_uvw_def np_add_def np_mul_def np_sub_def arr_op_def bop_def Let_def)
  from inst2earth_missing_inputs [of ?d "\<lambda>x. x" False, THEN conjunct1, THEN mp, OF 1]
  have 4: "inst2earth (\<lambda>x. x) ?d False =
        \<lparr>raised = raised (inst2earth (\<lambda>x. x)
            (adv_example\<lparr>props := [''coord_sys'' \<mapsto> PStr ''earth'', ''declination'' \<mapsto> PNum 0]\<rparr>) False),
         dataset = (dataset (inst2earth (\<lambda>x. x)
            (adv_example\<lparr>props := [''coord_sys'' \<mapsto> PStr ''earth'', ''declination'' \<mapsto> PNum 0]\<rparr>) False))
            \<lparr>props := (props (dataset (inst2earth (\<lambda>x. x)
               (adv_example\<lparr>props := [''coord_sys'' \<mapsto> PStr ''earth'', ''declination'' \<mapsto> PNum 0]\<rparr>) False)))
               (''declination'' := None)\<rparr>,
         warned = NoDeclination # warned (inst2earth (\<lambda>x. x)
            (adv_example\<lparr>props := [''coord_sys'' \<mapsto> PStr ''earth'', ''declination'' \<mapsto> PNum 0]\<rparr>) False)\<rparr>"
    by simp
  have 5: "props ?e ''declination'' = None" by simp
  have 6: "raised (inst2earth (\<lambda>x. x) ?e False) = Some TypeError"
    by (simp add: inst2earth_def adv_example_def prop_radians_def angles_rad_def)
  have 7: "warned (inst2earth (\<lambda>x. x) ?e False) = [NoDeclination]"
    by (simp add: inst2earth_def adv_example_def prop_radians_def angles_rad_def)
  from inst2earth_missing_inputs [of ?e "\<lambda>x. x" False, THEN conjunct1, THEN mp, OF 5]
  have 8: "inst2earth (\<lambda>x. x) ?e False =
        \<lparr>raised = raised (inst2earth (\<lambda>x. x)
            (adv_example\<lparr>props := [''heading_offset'' \<mapsto> PStr ''north'', ''declination'' \<mapsto> PNum 0]\<rparr>) False),
         dataset = (dataset (inst2earth (\<lambda>x. x)
            (adv_example\<lparr>props := [''heading_offset'' \<mapsto> PStr ''north'', ''declination'' \<mapsto> PNum 0]\<rparr>) False))
            \<lparr>props := (props (dataset (inst2earth (\<lambda>x. x)
               (adv_example\<lparr>props := [''heading_offset'' \<mapsto> PStr ''north'', ''declination'' \<mapsto> PNum 0]\<rparr>) False)))
               (''declination'' := None)\<rparr>,
         warned = NoDeclination # warned (inst2earth (\<lambda>x. x)
            (adv_example\<lparr>props := [''heading_offset'' \<mapsto> PStr ''north'', ''declination'' \<mapsto> PNum 0]\<rparr>) False)\<rparr>"
    by simp
  have 9: "props adv_example ''heading_offset'' = None" by (simp add: adv_example_def)
  note 10 = inst2earth_missing_inputs [of adv_example "\<lambda>x. x" False, THEN conjunct2, THEN mp, OF 9]
  from 1 2 3 4 5 6 7 8 9 10 show ?thesis by (intro conjI)
qed

text \<open>
  The order of evaluation on line 216: with a heading and a pitch of different lengths
  \<open>ch*cp\<close> raises before \<open>advo.u_inst\<close> is read; with matching lengths the missing
  attribute is what raises.
\<close>

lemma shape_error_before_attribute:
  "raised (inst2earth (\<lambda>x. x)
     (adv_example\<lparr>heading := [0, 0], pitch := [0, 0, 0], config_coordinate_system := ''ENU''\<rparr>) False)
   = Some ValueError
   \<and> raised (inst2earth (\<lambda>x. x) (adv_example\<lparr>config_coordinate_system := ''ENU''\<rparr>) False)
   = Some (AttributeError ''u_inst'')"
  by (simp add: inst2earth_def store_rotated_def save_inst_def adv_example_def prop_radians_def
        getattr_def angles_rad_def add_angle_def roll_down_def
        rotate_uvw_def np_add_def np_mul_def np_sub_def arr_op_def bop_def Let_def)

subsection \<open>The round trip through the principal axes\<close>

text \<open>One sample: the two conversions each add a relative error of at most \<open>eps\<close>.\<close>

lemma round_trip_sample:
  fixes s :: "real \<Rightarrow> real" and eps x y a :: real
  assumes rnd: "\<And>t. \<bar>s t - t\<bar> \<le> eps * \<bar>t\<bar>"
  defines "z1 \<equiv> Complex x y * cis (- a)"
  defines "z2 \<equiv> Complex (s (Re z1)) (s (Im z1)) * cis a"
  shows "\<bar>s (Re z2) - x\<bar> \<le> (2 * eps + eps\<^sup>2) * sqrt (x\<^sup>2 + y\<^sup>2)"
    and "\<bar>s (Im z2) - y\<bar> \<le> (2 * eps + eps\<^sup>2) * sqrt (x\<^sup>2 + y\<^sup>2)"
proof -
  let ?z = "Complex x y"
  from rnd [of 1] have e0: "0 \<le> eps" by simp
  have n: "cmod ?z = sqrt (x\<^sup>2 + y\<^sup>2)" by (simp add: cmod_def)
  have n1: "cmod z1 = cmod ?z" by (simp add: z1_def norm_mult)
  define d where "d = Complex (s (Re z1)) (s (Im z1)) - z1"
  have rd: "Re d = s (Re z1) - Re z1" and id: "Im d = s (Im z1) - Im z1"
    by (simp_all add: d_def)
  have "(Re d)\<^sup>2 = \<bar>Re d\<bar>\<^sup>2" by simp
  also have "\<dots> \<le> (eps * \<bar>Re z1\<bar>)\<^sup>2"
    unfolding rd by (rule power_mono [OF rnd]) simp
  finally have r2: "(Re d)\<^sup>2 \<le> eps\<^sup>2 * (Re z1)\<^sup>2" by (simp add: power_mult_distrib)
  have "(Im d)\<^sup>2 = \<bar>Im d\<bar>\<^sup>2" by simp
  also have "\<dots> \<le> (eps * \<bar>Im z1\<bar>)\<^sup>2"
    unfolding id by (rule power_mono [OF rnd]) simp
  finally have i2: "(Im d)\<^sup>2 \<le> eps\<^sup>2 * (Im z1)\<^sup>2" by (simp add: power_mult_distrib)
  have "cmod d = sqrt ((Re d)\<^sup>2 + (Im d)\<^sup>2)" by (simp add: cmod_def)
  also have "\<dots> \<le> sqrt (eps\<^sup>2 * ((Re z1)\<^sup>2 + (Im z1)\<^sup>2))"
    using r2 i2 by (intro real_sqrt_le_mono) (simp add: distrib_left)
  also have "\<dots> = eps * cmod z1"
    using e0 by (simp add: real_sqrt_mult cmod_def)
  finally have dn: "cmod d \<le> eps * cmod ?z" by (simp add: n1)
  have "z1 * cis a = ?z"
    by (simp add: z1_def mult.assoc cis_mult)
  then have diff: "z2 - ?z = d * cis a"
    by (simp add: z2_def d_def algebra_simps)
  then have dz: "cmod (z2 - ?z) \<le> eps * cmod ?z"
    using dn by (simp add: norm_mult)
  have "cmod z2 = cmod (?z + (z2 - ?z))" by simp
  also have "\<dots> \<le> cmod ?z + cmod (z2 - ?z)" by (rule norm_triangle_ineq)
  finally have z2n: "cmod z2 \<le> cmod ?z + eps * cmod ?z" using dz by simp
  have bound: "eps * cmod z2 + cmod (z2 - ?z) \<le> (2 * eps + eps\<^sup>2) * cmod ?z"
  proof -
    from z2n e0 have "eps * cmod z2 \<le> eps * (cmod ?z + eps * cmod ?z)"
      by (rule mult_left_mono)
    with dz show ?thesis by (simp add: algebra_simps power2_eq_square)
  qed
  have "\<bar>s (Re z2) - x\<bar> \<le> \<bar>s (Re z2) - Re z2\<bar> + \<bar>Re z2 - x\<bar>" by simp
  also have "\<dots> \<le> eps * \<bar>Re z2\<bar> + \<bar>Re (z2 - ?z)\<bar>"
    using rnd [of "Re z2"] by simp
  also have "\<dots> \<le> eps * cmod z2 + cmod (z2 - ?z)"
    using abs_Re_le_cmod [of z2] abs_Re_le_cmod [of "z2 - ?z"] e0
    by (intro add_mono mult_left_mono) simp_all
  finally show "\<bar>s (Re z2) - x\<bar> \<le> (2 * eps + eps\<^sup>2) * sqrt (x\<^sup>2 + y\<^sup>2)"
    using bound by (simp add: n)
  have "\<bar>s (Im z2) - y\<bar> \<le> \<bar>s (Im z2) - Im z2\<bar> + \<bar>Im z2 - y\<bar>" by simp
  also have "\<dots> \<le> eps * \<bar>Im z2\<bar> + \<bar>Im (z2 - ?z)\<bar>"
    using rnd [of "Im z2"] by simp
  also have "\<dots> \<le> eps * cmod z2 + cmod (z2 - ?z)"
    using abs_Im_le_cmod [of z2] abs_Im_le_cmod [of "z2 - ?z"] e0
    by (intro add_mono mult_left_mono) simp_all
  finally show "\<bar>s (Im z2) - y\<bar> \<le> (2 * eps + eps\<^sup>2) * sqrt (x\<^sup>2 + y\<^sup>2)"
    using bound by (simp add: n)
qed

text \<open>
  Claim C7 says that \<open>earth2principal\<close> followed by \<open>principal2earth\<close> gives back
  every (u, v). On a data set tagged \<open>'principal'\<close>, \<open>earth2principal\<close> returns at
  once and \<open>principal2earth\<close> rotates by the principal angle: with the angle \<open>pi\<close>
  and no rounding at all, (1, 0) comes back as (-1, 0).
\<close>

theorem principal_data_not_reproduced:
  "earth2principal (\<lambda>x. x) (adv_example\<lparr>props := [''coord_sys'' \<mapsto> PStr ''principal'']\<rparr>) =
     Inr (adv_example\<lparr>props := [''coord_sys'' \<mapsto> PStr ''principal'']\<rparr>)
   \<and> u (adv_example\<lparr>props := [''coord_sys'' \<mapsto> PStr ''principal'']\<rparr>) = [1]
   \<and> v (adv_example\<lparr>props := [''coord_sys'' \<mapsto> PStr ''principal'']\<rparr>) = [0]
   \<and> principal_angle (adv_example\<lparr>props := [''coord_sys'' \<mapsto> PStr ''principal'']\<rparr>) = pi
   \<and> u (principal2earth (\<lambda>x. x) (adv_example\<lparr>props := [''coord_sys'' \<mapsto> PStr ''principal'']\<rparr>)) = [- 1]
   \<and> v (principal2earth (\<lambda>x. x) (adv_example\<lparr>props := [''coord_sys'' \<mapsto> PStr ''principal'']\<rparr>)) = [0]"
  by (simp add: earth2principal_def principal2earth_def U_rot_def adv_example_def Let_def)

text \<open>
  Claim C7 as the code has it: on a data set whose tag is not \<open>'principal'\<close>, with
  \<open>u\<close> and \<open>v\<close> of one length, \<open>principal2earth\<close> after \<open>earth2principal\<close> gives
  back every sample within the rounding of \<open>astype('single')\<close>, for every principal
  angle. When the conversion has a relative error of at most \<open>eps\<close>, each of \<open>u\<close>
  and \<open>v\<close> comes back within \<open>(2 * eps + eps\<^sup>2) * sqrt (u\<^sup>2 + v\<^sup>2)\<close> of its value,
  so exactly when nothing is rounded; the data set is tagged \<open>'earth'\<close>.
\<close>

theorem round_trip_within_tolerance:
  assumes rnd: "\<forall>t. \<bar>single t - t\<bar> \<le> eps * \<bar>t\<bar>"
    and len: "length (u advo) = length (v advo)"
    and tag: "props advo ''coord_sys'' \<noteq> Some (PStr ''principal'')"
    and e2p: "earth2principal single advo = Inr advo1"
    and i: "i < length (u advo)"
  shows "length (u (principal2earth single advo1)) = length (u advo)
       \<and> length (v (principal2earth single advo1)) = length (v advo)
       \<and> \<bar>u (principal2earth single advo1) ! i - u advo ! i\<bar>
            \<le> (2 * eps + eps\<^sup>2) * sqrt ((u advo ! i)\<^sup>2 + (v advo ! i)\<^sup>2)
       \<and> \<bar>v (principal2earth single advo1) ! i - v advo ! i\<bar>
            \<le> (2 * eps + eps\<^sup>2) * sqrt ((u advo ! i)\<^sup>2 + (v advo ! i)\<^sup>2)
       \<and> props (principal2earth single advo1) ''coord_sys'' = Some (PStr ''earth'')"
proof -
  let ?a = "principal_angle advo"
  define Z where "Z = map (\<lambda>(x, y). Complex x y * cis (- ?a)) (zip (u advo) (v advo))"
  from e2p tag have a1: "advo1 = advo\<lparr>u := map (\<lambda>z. single (Re z)) Z, v := map (\<lambda>z. single (Im z)) Z,
      props := (props advo)(''coord_sys'' \<mapsto> PStr ''principal'')\<rparr>"
    by (auto simp: earth2principal_def U_rot_def Let_def Z_def split: option.splits if_splits)
  have lz: "length Z = length (u advo)" using len by (simp add: Z_def)
  define W where "W = U_rot advo1 (principal_angle advo1)"
  have lw: "length W = length (u advo)" by (simp add: W_def U_rot_def a1 lz)
  have zi: "Z ! i = Complex (u advo ! i) (v advo ! i) * cis (- ?a)"
    using i len by (simp add: Z_def)
  have wi: "W ! i = Complex (single (Re (Z ! i))) (single (Im (Z ! i))) * cis ?a"
    using i lz by (simp add: W_def U_rot_def a1)
  have pu: "u (principal2earth single advo1) = map (\<lambda>z. single (Re z)) W"
    and pv: "v (principal2earth single advo1) = map (\<lambda>z. single (Im z)) W"
    by (simp_all add: principal2earth_def W_def Let_def)
  from rnd have r: "\<And>t. \<bar>single t - t\<bar> \<le> eps * \<bar>t\<bar>" by simp
  note b = round_trip_sample [of single eps "u advo ! i" "v advo ! i" ?a, OF r, folded zi, folded wi]
  have 1: "length (u (principal2earth single advo1)) = length (u advo)" by (simp add: pu lw)
  have 2: "length (v (principal2earth single advo1)) = length (v advo)" by (simp add: pv lw len)
  have 3: "\<bar>u (principal2earth single advo1) ! i - u advo ! i\<bar>
            \<le> (2 * eps + eps\<^sup>2) * sqrt ((u advo ! i)\<^sup>2 + (v advo ! i)\<^sup>2)"
    using b(1) i lw by (simp add: pu)
  have 4: "\<bar>v (principal2earth single advo1) ! i - v advo ! i\<bar>
            \<le> (2 * eps + eps\<^sup>2) * sqrt ((u advo ! i)\<^sup>2 + (v advo ! i)\<^sup>2)"
    using b(2) i lw by (simp add: pv)
  have 5: "props (principal2earth single advo1) ''coord_sys'' = Some (PStr ''earth'')"
    by (simp add: principal2earth_def Let_def)
  from 1 2 3 4 5 show ?thesis by (intro conjI)
qed

theorem round_trip_within_tolerance_witness:
  "earth2principal (\<lambda>x. x + x / 16) adv_example =
     Inr (adv_example\<lparr>u := [- (17 / 16)], v := [0],
            props := (props adv_example)(''coord_sys'' \<mapsto> PStr ''principal'')\<rparr>)
   \<and> u (principal2earth (\<lambda>x. x + x / 16) (adv_example\<lparr>u := [- (17 / 16)], v := [0],
            props := (props adv_example)(''coord_sys'' \<mapsto> PStr ''principal'')\<rparr>)) = [289 / 256]
   \<and> length (u (principal2earth (\<lambda>x. x + x / 16) (adv_example\<lparr>u := [- (17 / 16)], v := [0],
            props := (props adv_example)(''coord_sys'' \<mapsto> PStr ''principal'')\<rparr>))) = length (u adv_example)
   \<and> length (v (principal2earth (\<lambda>x. x + x / 16) (adv_example\<lparr>u := [- (17 / 16)], v := [0],
            props := (props adv_example)(''coord_sys'' \<mapsto> PStr ''principal'')\<rparr>))) = length (v adv_example)
   \<and> \<bar>u (principal2earth (\<lambda>x. x + x / 16) (adv_example\<lparr>u := [- (17 / 16)], v := [0],
            props := (props adv_example)(''coord_sys'' \<mapsto> PStr ''principal'')\<rparr>)) ! 0 - u adv_example ! 0\<bar>
        \<le> (2 * (1 / 16) + (1 / 16)\<^sup>2) * sqrt ((u adv_example ! 0)\<^sup>2 + (v adv_example ! 0)\<^sup>2)
   \<and> \<bar>v (principal2earth (\<lambda>x. x + x / 16) (adv_example\<lparr>u := [- (17 / 16)], v := [0],
            props := (props adv_example)(''coord_sys'' \<mapsto> PStr ''principal'')\<rparr>)) ! 0 - v adv_example ! 0\<bar>
        \<le> (2 * (1 / 16) + (1 / 16)\<^sup>2) * sqrt ((u adv_example ! 0)\<^sup>2 + (v adv_example ! 0)\<^sup>2)
   \<and> props (principal2earth (\<lambda>x. x + x / 16) (adv_example\<lparr>u := [- (17 / 16)], v := [0],
            props := (props adv_example)(''coord_sys'' \<mapsto> PStr ''principal'')\<rparr>)) ''coord_sys'' =
        Some (PStr ''earth'')"
proof -
  let ?s = "\<lambda>x::real. x + x / 16"
  let ?a1 = "adv_example\<lparr>u := [- (17 / 16)], v := [0],
            props := (props adv_example)(''coord_sys'' \<mapsto> PStr ''principal'')\<rparr>"
  have r: "\<forall>t. \<bar>?s t - t\<bar> \<le> (1 / 16) * \<bar>t\<bar>" by simp
  have l: "length (u adv_example) = length (v adv_example)" by (simp add: adv_example_def)
  have t: "props adv_example ''coord_sys'' \<noteq> Some (PStr ''principal'')"
    by (simp add: adv_example_def)
  have e: "earth2principal ?s adv_example = Inr ?a1"
    by (simp add: earth2principal_def U_rot_def adv_example_def Let_def)
  have i: "0 < length (u adv_example)" by (simp add: adv_example_def)
  have p: "u (principal2earth ?s ?a1) = [289 / 256]"
    by (simp add: principal2earth_def U_rot_def adv_example_def Let_def)
  from e p round_trip_within_tolerance [OF r l t e i] show ?thesis by (intro conjI) simp_all
qed

subsection \<open>Motion correction of a data set at rest\<close>

text \<open>What the array operations give on arrays of zeros.\<close>

lemma upt_3: "[0..<3] = [0, 1, 2]"
  by (simp add: upt_rec)

lemma length3E:
  assumes "length xs = 3"
  obtains a b c where "xs = [a, b, c]"
  using assms by (auto simp: numeral_3_eq_3 length_Suc_conv)

lemma is_mat_3E:
  assumes "is_mat 3 c m"
  obtains r0 r1 r2 where "m = [r0, r1, r2]" "length r0 = c" "length r1 = c" "length r2 = c"
proof -
  from assms have l: "length m = 3" and a: "\<forall>row\<in>set m. length row = c"
    by (simp_all add: is_mat_def list_all_iff)
  from l obtain r0 r1 r2 where "m = [r0, r1, r2]" by (rule length3E)
  with a show ?thesis by (intro that) auto
qed

lemma is_ten_3E:
  assumes "is_ten 3 b c t"
  obtains m0 m1 m2 where "t = [m0, m1, m2]" "is_mat b c m0" "is_mat b c m1" "is_mat b c m2"
proof -
  from assms have l: "length t = 3" and a: "\<forall>m\<in>set t. is_mat b c m"
    by (simp_all add: is_ten_def list_all_iff)
  from l obtain m0 m1 m2 where "t = [m0, m1, m2]" by (rule length3E)
  with a show ?thesis by (intro that) auto
qed

lemma zeros_3: "zeros 3 n = [replicate n 0, replicate n 0, replicate n 0]"
  by (simp add: zeros_def numeral_3_eq_3)

lemma is_mat_zeros: "is_mat r c (zeros r c)"
  by (simp add: is_mat_def zeros_def list_all_iff)

lemma at2_zeros: "at2 (zeros r c) i j = 0"
  by (simp add: at2_def at1_def zeros_def)

lemma dim2_zeros_3: "dim2 (zeros 3 n) = n"
  by (simp add: zeros_3 dim2_def)

lemma dim2_mat_3: "is_mat 3 c m \<Longrightarrow> dim2 m = c"
  by (erule is_mat_3E) (simp add: dim2_def)

lemma dim2_ten_3: "is_ten 3 b c t \<Longrightarrow> dim2 t = b"
  by (erule is_ten_3E) (simp add: dim2_def is_mat_def)

lemma dim3_ten_33: "is_ten 3 3 c t \<Longrightarrow> dim3 t = c"
  by (erule is_ten_3E) (simp add: dim3_def dim2_mat_3)

lemma map_zero_upt: "map (\<lambda>i. c) [0..<n] = replicate n c"
  by (rule map_replicate_trivial)

lemma sum_list_zero: "(\<Sum>i\<leftarrow>xs. (0::real)) = 0"
  by (induction xs) simp_all

lemma sum_list_replicate_zero: "sum_list (replicate k (0::real)) = 0"
  by (induction k) simp_all

lemma np_dot_T:
  assumes R: "is_mat 3 3 R" and U: "is_mat 3 n U"
  shows "np_dot (mat_T R) U =
     Inr (map (\<lambda>i. map (\<lambda>j. \<Sum>k\<leftarrow>[0..<3]. R ! k ! i * U ! k ! j) [0..<n]) [0..<3])"
proof -
  from R obtain a b c where r: "R = [a, b, c]" "length a = 3" "length b = 3" "length c = 3"
    by (rule is_mat_3E)
  from r(2) obtain a0 a1 a2 where a: "a = [a0, a1, a2]" by (rule length3E)
  from r(3) obtain b0 b1 b2 where b: "b = [b0, b1, b2]" by (rule length3E)
  from r(4) obtain c0 c1 c2 where c: "c = [c0, c1, c2]" by (rule length3E)
  from U obtain x y z where u: "U = [x, y, z]" "length x = n" "length y = n" "length z = n"
    by (rule is_mat_3E)
  have t: "mat_T R = [[a0, b0, c0], [a1, b1, c1], [a2, b2, c2]]"
    by (simp add: mat_T_def r(1) a b c dim2_def at2_def at1_def upt_3)
  show ?thesis
    unfolding t by (simp add: np_dot_def dim2_def u r(1) a b c upt_3 at2_def at1_def cong: map_cong)
qed

lemma np_dot_zeros:
  assumes R: "is_mat 3 3 R"
  shows "np_dot R (zeros 3 n) = Inr (zeros 3 n)"
proof -
  from R have "dim2 R = 3" "length R = 3" by (simp_all add: dim2_mat_3 is_mat_def)
  then show ?thesis
    by (simp add: np_dot_def dim2_zeros_3 at2_zeros sum_list_zero sum_list_replicate_zero map_zero_upt)
       (simp add: zeros_def)
qed

lemma is_mat_T: "is_mat 3 3 R \<Longrightarrow> is_mat 3 3 (mat_T R)"
  by (simp add: mat_T_def dim2_mat_3 is_mat_def list_all_iff)

lemma np_dot_T_zeros: "is_mat 3 3 R \<Longrightarrow> np_dot (mat_T R) (zeros 3 n) = Inr (zeros 3 n)"
  by (rule np_dot_zeros) (rule is_mat_T)

lemma outer_zeros: "outer xs (replicate n 0) = replicate (length xs) (replicate n 0)"
  by (simp add: outer_def map_replicate_const)

lemma sub2_zeros:
  "sub2 (replicate p (replicate n 0)) (replicate p (replicate n 0)) = replicate p (replicate n 0)"
  by (simp add: sub2_def zip_replicate)

lemma calcRotationVel_zero_vec:
  assumes "length xs = 3"
  shows "calcRotationVel lib (zeros 3 n) (A1 xs) tm = Inr (zeros 3 n)"
proof -
  from assms obtain a b c where x: "xs = [a, b, c]" by (rule length3E)
  show ?thesis
    by (cases tm) (simp_all add: calcRotationVel_def x zeros_3 outer_def sub2_def zip_replicate dim2_def)
qed

lemma calcRotationVel_zero_mat_None:
  assumes "is_mat 3 3 m"
  shows "calcRotationVel lib (zeros 3 n) (A2 m) None = Inr (zeros 3 n)"
proof -
  from assms obtain a b c where m: "m = [a, b, c]" "length a = 3" "length b = 3" "length c = 3"
    by (rule is_mat_3E)
  show ?thesis
    by (simp add: calcRotationVel_def m zeros_3 outer_zeros sub2_zeros dim2_def)
qed

lemma at3_zeros: "at3 (replicate a (replicate b (replicate c 0))) i j k = 0"
  by (simp add: at3_def at2_def at1_def)

lemma calcRotationVel_zero_mat_Some:
  assumes m: "is_mat 3 3 m" and T: "is_mat 3 3 T"
    and inv: "linalg_inv lib T = Inr Ti" and Ti: "is_mat 3 3 Ti"
  shows "calcRotationVel lib (zeros 3 n) (A2 m) (Some T) = Inr (zeros 3 n)"
proof -
  from m obtain a b c where m': "m = [a, b, c]" "length a = 3" "length b = 3" "length c = 3"
    by (rule is_mat_3E)
  let ?Z = "replicate 3 (replicate 3 (replicate n (0::real)))"
  have z: "[replicate 3 (replicate n 0), replicate 3 (replicate n 0), replicate 3 (replicate n (0::real))] = ?Z"
    by (simp add: numeral_3_eq_3)
  have d: "dim2 ?Z = 3" "dim3 ?Z = n" "length ?Z = 3"
    by (simp_all add: dim2_def dim3_def numeral_3_eq_3)
  from Ti have ti: "dim2 Ti = 3" "length Ti = 3" by (simp_all add: dim2_mat_3 is_mat_def)
  from T have t: "dim2 T = 3" "length T = 3" by (simp_all add: dim2_mat_3 is_mat_def)
  have e1: "einsum_ij_jkl Ti ?Z = Inr ?Z"
    by (simp add: einsum_ij_jkl_def d ti bsize_def at3_zeros sum_list_zero sum_list_replicate_zero map_zero_upt)
  have e2: "einsum_diag T ?Z = Inr (zeros 3 n)"
    by (simp add: einsum_diag_def d t bsize_def at3_zeros sum_list_zero sum_list_replicate_zero map_zero_upt zeros_def)
  show ?thesis
    by (simp add: calcRotationVel_def Let_def m' zeros_3 outer_zeros sub2_zeros z d inv e1
        e2 [unfolded zeros_3])
qed

lemma einsum_ijk_ik_zeros:
  assumes "is_ten 3 3 n t"
  shows "einsum_ijk_ik t (zeros 3 n) = Inr (zeros 3 n)"
proof -
  from assms have "length t = 3" by (simp add: is_ten_def)
  moreover from assms have "dim2 t = 3" by (rule dim2_ten_3)
  moreover from assms have "dim3 t = n" by (rule dim3_ten_33)
  ultimately show ?thesis
    by (simp add: einsum_ijk_ik_def bsize_def dim2_zeros_3 at2_zeros sum_list_zero sum_list_replicate_zero map_zero_upt)
       (simp add: zeros_def)
qed

lemma einsum_ijk_jk_zeros:
  assumes "is_ten 3 3 n t"
  shows "einsum_ijk_jk t (zeros 3 n) = Inr (zeros 3 n)"
proof -
  from assms have "length t = 3" by (simp add: is_ten_def)
  moreover from assms have "dim2 t = 3" by (rule dim2_ten_3)
  moreover from assms have "dim3 t = n" by (rule dim3_ten_33)
  ultimately show ?thesis
    by (simp add: einsum_ijk_jk_def bsize_def dim2_zeros_3 at2_zeros sum_list_zero sum_list_replicate_zero map_zero_upt)
       (simp add: zeros_def)
qed

lemma lowpass_rows_zeros:
  assumes "filtfilt lib (fst flt) (snd flt) (replicate n 0) = Inr (replicate n 0)"
  shows "lowpass_rows lib flt 0 3 (zeros 3 n) = Inr (zeros 3 n)"
  using assms by (simp add: numeral_3_eq_3 zeros_def assign_row_def)

lemma bop_zeros: "bop f (replicate n a) (replicate n b) = Inr (replicate n (f a b))"
  by (simp add: bop_def zip_replicate)

lemma bop2_sub_zeros: "bop2 (-) (zeros 3 n) (zeros 3 n) = Inr (zeros 3 n)"
  by (simp add: bop2_def zeros_3 bop_zeros)

lemma bop2_add_zeros: "bop2 (+) (zeros 3 n) (zeros 3 (max 1 n)) = Inr (zeros 3 n)"
proof (cases "n = 0")
  case True
  then show ?thesis by (simp add: bop2_def zeros_3 bop_def)
next
  case False
  then have "max 1 n = n" by simp
  then show ?thesis by (simp add: bop2_def zeros_3 bop_zeros)
qed

lemma bop2_sub_zero_right:
  assumes "is_mat 3 n U"
  shows "bop2 (-) U (zeros 3 n) = Inr U"
proof -
  from assms obtain x y z where u: "U = [x, y, z]" "length x = n" "length y = n" "length z = n"
    by (rule is_mat_3E)
  have r: "bop (-) xs (replicate n 0) = Inr xs" if "length xs = n" for xs
    using that by (simp add: bop_def map2_map_map [symmetric] zip_replicate2 map_idI
        del: map2_map_map) 
  show ?thesis by (simp add: bop2_def zeros_3 u r)
qed

lemma cumsum_from_zeros: "cumsum_from 0 (replicate k 0) = replicate k 0"
  by (induction k) simp_all

lemma cumtrapz_zeros: "cumtrapz dx (replicate n 0) = replicate (n - 1) 0"
  by (simp add: cumtrapz_def tl_replicate zip_replicate cumsum_from_zeros)

lemma dat_zeros: "map (\<lambda>row. 0 # cumtrapz dx row) (zeros 3 n) = zeros 3 (max 1 n)"
proof -
  have "0 # replicate (n - 1) (0::real) = replicate (max 1 n) 0"
    by (cases n) simp_all
  then show ?thesis by (simp add: zeros_3 cumtrapz_zeros)
qed

lemma highpass_rows_zeros:
  assumes "filtfilt lib (fst filt) (snd filt) (replicate k 0) = Inr (replicate k 0)"
  shows "highpass_rows lib filt (zeros 3 k) = Inr (zeros 3 k)"
  using assms by (simp add: zeros_3 bop_zeros assign_row_def)

lemma neg_zeros: "map (map uminus) (zeros r c) = zeros r c"
  by (simp add: zeros_def)

lemma calcAccelVel_zeros:
  assumes fs: "samp_freq \<noteq> 0"
    and b: "butter lib 2 (filt_freq / (samp_freq / 2)) = Inr filt"
    and f: "filtfilt lib (fst filt) (snd filt) (replicate (max 1 n) 0) = Inr (replicate (max 1 n) 0)"
  shows "calcAccelVel lib (zeros 3 n) samp_freq filt_freq = Inr (zeros 3 (max 1 n))"
proof -
  from fs have "samp_freq / 2 \<noteq> 0" by simp
  then show ?thesis
    unfolding calcAccelVel_def
    by (simp only: if_False b sum.case Let_def dat_zeros highpass_rows_zeros [OF f] neg_zeros)
qed

text \<open>The methods of \<open>correct_motion\<close> on a data set at rest.\<close>

lemma np_dot_is_mat:
  assumes "is_mat 3 3 a" and "is_mat 3 c b"
  shows "\<exists>m. np_dot a b = Inr m \<and> is_mat 3 c m"
proof -
  from assms have "dim2 a = 3" "length a = 3" "dim2 b = c" "length b = 3"
    by (simp_all add: dim2_mat_3 is_mat_def)
  then show ?thesis by (simp add: np_dot_def is_mat_def list_all_iff)
qed

lemma np_dot_vec_length:
  assumes "is_mat 3 3 a" and "length xs = 3"
  shows "\<exists>ys. np_dot_vec a xs = Inr ys \<and> length ys = 3"
proof -
  from assms have "dim2 a = 3" "length a = 3" by (simp_all add: dim2_mat_3 is_mat_def)
  with assms(2) show ?thesis by (simp add: np_dot_vec_def)
qed

lemma is_mat_probe_positions: "is_mat 3 3 probe_positions"
  by (simp add: probe_positions_def is_mat_def Let_def)

lemma bop2_add_column:
  assumes "is_mat 3 3 p" and "length xs = 3"
  shows "\<exists>m. bop2 (+) p (map (\<lambda>x. [x]) xs) = Inr m \<and> is_mat 3 3 m"
proof -
  from assms(1) obtain a b c where p: "p = [a, b, c]" "length a = 3" "length b = 3" "length c = 3"
    by (rule is_mat_3E)
  from assms(2) obtain x y z where x: "xs = [x, y, z]" by (rule length3E)
  show ?thesis by (simp add: bop2_def p x bop_def is_mat_def)
qed

lemma cm_calcProbePos_cases:
  assumes R: "body2head_rotmat advo = Some R" "is_mat 3 3 R"
    and bv: "body2head_vec advo = Some bv" "length bv = 3"
  shows "(\<not> (inst_make advo = Some ''Nortek'' \<and> inst_model advo = Some ''VECTOR'' \<and>
             separate_probes self) \<and> cm_calcProbePos self advo = Inr (A1 bv)) \<or>
         (inst_make advo = Some ''Nortek'' \<and> inst_model advo = Some ''VECTOR'' \<and>
          separate_probes self \<and> (\<exists>p. cm_calcProbePos self advo = Inr (A2 p) \<and> is_mat 3 3 p))"
proof (cases "inst_make advo = Some ''Nortek'' \<and> inst_model advo = Some ''VECTOR'' \<and>
             separate_probes self")
  case False
  then have "cm_calcProbePos self advo = Inr (A1 bv)"
    by (simp only: cm_calcProbePos_def if_False bv(1) getitem_def option.case sum.case
        map_sum.simps id_apply)
  with False show ?thesis by blast
next
  case True
  from np_dot_is_mat [OF is_mat_T [OF R(2)] is_mat_probe_positions]
  obtain p0 where p0: "np_dot (mat_T R) probe_positions = Inr p0" "is_mat 3 3 p0" by blast
  from bop2_add_column [OF p0(2) bv(2)]
  obtain p where p: "bop2 (+) p0 (map (\<lambda>x. [x]) bv) = Inr p" "is_mat 3 3 p" by blast
  from True have "cm_calcProbePos self advo = Inr (A2 p)"
    by (simp add: cm_calcProbePos_def R(1) bv(1) getitem_def p0(1) p(1))
  with True p(2) show ?thesis by blast
qed

lemma cm_rotateVel2body_ok:
  assumes R: "body2head_rotmat advo = Some R" "is_mat 3 3 R" and U: "is_mat 3 n (vel_u advo)"
  shows "cm_rotateVel2body advo =
     (None, advo\<lparr>vel_u := map (\<lambda>i. map (\<lambda>j. \<Sum>k\<leftarrow>[0..<3]. R ! k ! i * vel_u advo ! k ! j)
                                    [0..<n]) [0..<3]\<rparr>)"
  by (simp only: cm_rotateVel2body_def R(1) getitem_def option.case sum.case
      np_dot_T [OF R(2) U] assign_def)

lemma cm_calcRotVel_zero:
  assumes R: "body2head_rotmat advo = Some R" "is_mat 3 3 R"
    and bv: "body2head_vec advo = Some bv" "length bv = 3"
    and z: "AngRt advo = zeros 3 n"
    and tm: "\<And>T. separate_probes self \<Longrightarrow> inst_make advo = Some ''Nortek'' \<Longrightarrow>
               inst_model advo = Some ''VECTOR'' \<Longrightarrow> TransMatrix advo = Some T \<Longrightarrow>
               is_mat 3 3 T \<and> (\<exists>Ti. linalg_inv lib T = Inr Ti \<and> is_mat 3 3 Ti)"
  shows "cm_calcRotVel lib self advo =
     (None, advo\<lparr>urot := Some (zeros 3 n), orient_group := insert ''urot'' (orient_group advo)\<rparr>)"
proof -
  have "(case cm_calcProbePos self advo of
          Inl e \<Rightarrow> Inl e
        | Inr ppos \<Rightarrow>
            if separate_probes self then
              (case getitem ''body2head_rotmat'' (body2head_rotmat advo) of
                 Inl e \<Rightarrow> Inl e
               | Inr R \<Rightarrow>
              (case np_dot R (AngRt advo) of
                 Inl e \<Rightarrow> Inl e
               | Inr angrt \<Rightarrow>
              (case np_dot_arr R ppos of
                 Inl e \<Rightarrow> Inl e
               | Inr ppos' \<Rightarrow>
              (case calcRotationVel lib angrt ppos' (TransMatrix advo) of
                 Inl e \<Rightarrow> Inl e
               | Inr ue \<Rightarrow> np_dot (mat_T R) ue))))
            else calcRotationVel lib (AngRt advo) ppos None) = Inr (zeros 3 n)"
    (is "?e = _")
  proof (cases "separate_probes self")
    case False
    then have "cm_calcProbePos self advo = Inr (A1 bv)"
      using cm_calcProbePos_cases [OF R bv, of self] by blast
    with False show ?thesis
      by (simp only: sum.case if_False z calcRotationVel_zero_vec [OF bv(2)])
  next
    case sp: True
    from cm_calcProbePos_cases [OF R bv, of self] show ?thesis
    proof (elim disjE conjE exE)
      assume pp: "cm_calcProbePos self advo = Inr (A1 bv)"
      from np_dot_vec_length [OF R(2) bv(2)]
      obtain ys where ys: "np_dot_vec R bv = Inr ys" "length ys = 3" by blast
      have a: "np_dot_arr R (A1 bv) = Inr (A1 ys)"
        by (simp add: np_dot_arr_def ys(1))
      from sp show ?thesis
        by (simp only: pp sum.case if_True R(1) getitem_def option.case z
            np_dot_zeros [OF R(2)] a calcRotationVel_zero_vec [OF ys(2)]
            np_dot_T_zeros [OF R(2)])
    next
      fix p
      assume v: "inst_make advo = Some ''Nortek''" "inst_model advo = Some ''VECTOR''"
        and pp: "cm_calcProbePos self advo = Inr (A2 p)" and p: "is_mat 3 3 p"
      from np_dot_is_mat [OF R(2) p]
      obtain p' where p': "np_dot R p = Inr p'" "is_mat 3 3 p'" by blast
      have a: "np_dot_arr R (A2 p) = Inr (A2 p')"
        by (simp add: np_dot_arr_def p'(1))
      have c: "calcRotationVel lib (zeros 3 n) (A2 p') (TransMatrix advo) = Inr (zeros 3 n)"
      proof (cases "TransMatrix advo")
        case None
        then show ?thesis by (simp only: calcRotationVel_zero_mat_None [OF p'(2)])
      next
        case (Some T)
        from tm [OF sp v Some] obtain Ti where "is_mat 3 3 T" "linalg_inv lib T = Inr Ti"
          "is_mat 3 3 Ti" by blast
        from calcRotationVel_zero_mat_Some [OF p'(2) this] Some show ?thesis by simp
      qed
      from sp show ?thesis
        by (simp only: pp sum.case if_True R(1) getitem_def option.case z
            np_dot_zeros [OF R(2)] a c np_dot_T_zeros [OF R(2)])
    qed
  qed
  then show ?thesis by (simp only: cm_calcRotVel_def assign_def sum.case)
qed

lemma cm_calcAccelStable_zero:
  assumes z: "Accel advo = zeros 3 n" and om: "is_ten 3 3 n (orientmat advo)"
    and fs: "fs advo \<noteq> 0"
    and b: "butter lib 1 (accel_filtfreq self / (fs advo / 2)) = Inr flt"
    and f: "filtfilt lib (fst flt) (snd flt) (replicate n 0) = Inr (replicate n 0)"
  shows "cm_calcAccelStable lib self advo =
     (None, advo\<lparr>AccelStable := Some (zeros 3 n),
                  orient_group := insert ''AccelStable'' (orient_group advo)\<rparr>)"
proof -
  from fs have "fs advo / 2 \<noteq> 0" by simp
  then show ?thesis
    by (simp only: cm_calcAccelStable_def z einsum_ijk_ik_zeros [OF om] sum.case if_False b
        lowpass_rows_zeros [OF f] einsum_ijk_jk_zeros [OF om] assign_def)
qed

lemma cm_calcAccelVel_zero:
  assumes s: "AccelStable advo = Some (zeros 3 n)" and z: "Accel advo = zeros 3 n"
    and fs: "fs advo \<noteq> 0"
    and b: "butter lib 2 (accelvel_filtfreq self / (fs advo / 2)) = Inr filt"
    and f: "filtfilt lib (fst filt) (snd filt) (replicate (max 1 n) 0) = Inr (replicate (max 1 n) 0)"
  shows "cm_calcAccelVel lib self advo =
     (None, advo\<lparr>uacc := Some (zeros 3 (max 1 n)),
                  orient_group := insert ''uacc'' (orient_group advo)\<rparr>)"
  by (simp only: cm_calcAccelVel_def s z getattr_def option.case sum.case bop2_sub_zeros
      calcAccelVel_zeros [OF fs b f] assign_def)

lemma cm_subtract_zero:
  assumes "urot advo = Some (zeros 3 n)" and "uacc advo = Some (zeros 3 (max 1 n))"
    and U: "is_mat 3 n (vel_u advo)"
  shows "cm_subtract advo = (None, advo)"
proof -
  have "advo\<lparr>vel_u := vel_u advo\<rparr> = advo" by simp
  then show ?thesis
    by (simp only: cm_subtract_def assms(1,2) getattr_def option.case sum.case bop2_add_zeros
        bop2_sub_zero_right [OF U] if_True refl assign_def)
qed

text \<open>
  Test runs of the model with the test library: the velocity induced by a rotation
  about the x axis at the position (1, 2, 3), the velocity from a constant
  acceleration, and a call on the test data set rotating about the x axis.
\<close>

lemma calcRotationVel_example:
  "calcRotationVel lib_example [[1, 1], [0, 0], [0, 0]] (A1 [1, 2, 3]) None =
     Inr [[0, 0], [3, 3], [- 2, - 2]]"
  by code_simp

lemma calcAccelVel_example:
  "calcAccelVel lib_example [[2, 2, 2]] 1 (1 / 4) = Inr [[0, - 1, - 2]]"
  by code_simp

lemma correct_motion_example:
  "fst (cm_call lib_example (correct_motion_init (1 / 30) (1 / 100) False)
         (motion_example\<lparr>AngRt := [[1, 1], [0, 0], [0, 0]]\<rparr>)) = None
   \<and> urot (snd (cm_call lib_example (correct_motion_init (1 / 30) (1 / 100) False)
         (motion_example\<lparr>AngRt := [[1, 1], [0, 0], [0, 0]]\<rparr>))) = Some [[0, 0], [3, 3], [- 2, - 2]]
   \<and> vel_u (snd (cm_call lib_example (correct_motion_init (1 / 30) (1 / 100) False)
         (motion_example\<lparr>AngRt := [[1, 1], [0, 0], [0, 0]]\<rparr>))) = [[- 3, - 4], [- 2, - 1], [7, 8]]"
proof -
  let ?self = "correct_motion_init (1 / 30) (1 / 100) False"
  let ?a0 = "motion_example\<lparr>AngRt := [[1, 1], [0, 0], [0, 0]],
      rotate_vars := Some [''_u'', ''urot'', ''uacc'', ''Accel'', ''AccelStable'', ''AngRt'', ''Mag'']\<rparr>"
  let ?a1 = "?a0\<lparr>vel_u := [[- 3, - 4], [1, 2], [5, 6]]\<rparr>"
  let ?a2 = "?a1\<lparr>urot := Some [[0, 0], [3, 3], [- 2, - 2]],
      orient_group := insert ''urot'' (orient_group ?a1)\<rparr>"
  let ?a3 = "?a2\<lparr>AccelStable := Some [[0, 0], [0, 0], [0, 0]],
      orient_group := insert ''AccelStable'' (orient_group ?a2)\<rparr>"
  let ?a4 = "?a3\<lparr>uacc := Some [[0, 0], [0, 0], [0, 0]],
      orient_group := insert ''uacc'' (orient_group ?a3)\<rparr>"
  let ?a5 = "?a4\<lparr>vel_u := [[- 3, - 4], [- 2, - 1], [7, 8]]\<rparr>"
  have t: "mat_T [[0, 1, 0], [- 1, 0, 0], [0, 0, 1]] = [[0, - 1, 0], [1, 0, 0], [0, 0, 1]]"
    by code_simp
  have d: "np_dot [[0, - 1, 0], [1, 0, 0], [0, 0, 1]] [[1, 2], [3, 4], [5, 6]] =
      Inr [[- 3, - 4], [1, 2], [5, 6]]"
    by code_simp
  have s1: "cm_rotateVel2body ?a0 = (None, ?a1)"
    by (simp add: cm_rotateVel2body_def motion_example_def getitem_def assign_def t d)
  have r: "calcRotationVel lib_example [[1, 1], [0, 0], [0, 0]] (A1 [1, 2, 3]) None =
     Inr [[0, 0], [3, 3], [- 2, - 2]]"
    by code_simp
  have s2: "cm_calcRotVel lib_example ?self ?a1 = (None, ?a2)"
    by (simp add: cm_calcRotVel_def cm_calcProbePos_def correct_motion_init_def
        motion_example_def getitem_def assign_def r)
  have e1: "einsum_ijk_ik [[[1, 1], [0, 0], [0, 0]], [[0, 0], [1, 1], [0, 0]], [[0, 0], [0, 0], [1, 1]]]
      [[0, 0], [0, 0], [0, 0]] = Inr [[0, 0], [0, 0], [0, 0]]"
    by code_simp
  have lp: "lowpass_rows lib_example ([1 / 2], [1]) 0 3 [[0, 0], [0, 0], [0, 0]] =
      Inr [[0, 0], [0, 0], [0, 0]]"
    by code_simp
  have e2: "einsum_ijk_jk [[[1, 1], [0, 0], [0, 0]], [[0, 0], [1, 1], [0, 0]], [[0, 0], [0, 0], [1, 1]]]
      [[0, 0], [0, 0], [0, 0]] = Inr [[0, 0], [0, 0], [0, 0]]"
    by code_simp
  have b: "butter lib_example k (1 / 480) = Inr ([1 / 2], [1])" for k
    by (simp add: lib_example_def)
  have s3: "cm_calcAccelStable lib_example ?self ?a2 = (None, ?a3)"
    by (simp add: cm_calcAccelStable_def correct_motion_init_def motion_example_def assign_def
        e1 b lp e2)
  have su: "bop2 (-) [[0, 0], [0, 0], [0, 0]] [[0, 0], [0, 0], [0, 0]] = Inr [[0, 0], [0, 0], [0, 0]]"
    by code_simp
  have av: "calcAccelVel lib_example [[0, 0], [0, 0], [0, 0]] 32 (1 / 100) =
      Inr [[0, 0], [0, 0], [0, 0]]"
    by code_simp
  have s4: "cm_calcAccelVel lib_example ?self ?a3 = (None, ?a4)"
    by (simp add: cm_calcAccelVel_def correct_motion_init_def motion_example_def assign_def
        getattr_def su av)
  have ad: "bop2 (+) [[0, 0], [3, 3], [- 2, - 2]] [[0, 0], [0, 0], [0, 0]] =
      Inr [[0, 0], [3, 3], [- 2, - 2]]"
    by code_simp
  have sb: "bop2 (-) [[- 3, - 4], [1, 2], [5, 6]] [[0, 0], [3, 3], [- 2, - 2]] =
      Inr [[- 3, - 4], [- 2, - 1], [7, 8]]"
    by code_simp
  have s5: "cm_subtract ?a4 = (None, ?a5)"
    by (simp add: cm_subtract_def motion_example_def assign_def getattr_def ad sb)
  have rv: "rotate_vars motion_example = None" by (simp add: motion_example_def)
  have "cm_call lib_example ?self (motion_example\<lparr>AngRt := [[1, 1], [0, 0], [0, 0]]\<rparr>) = (None, ?a5)"
    by (simp add: cm_call_def Let_def rv and_then_def s1 [simplified] s2 [simplified]
        s3 [simplified] s4 [simplified] s5 [simplified])
  then show ?thesis by simp
qed


text \<open>Without the rotation matrix the call raises at once; \<open>rotate_vars\<close> has been set.\<close>

lemma correct_motion_no_rotmat:
  "cm_call lib self (motion_example\<lparr>body2head_rotmat := None\<rparr>) =
     (Some (KeyError ''body2head_rotmat''),
      motion_example\<lparr>body2head_rotmat := None,
        rotate_vars := Some [''_u'', ''urot'', ''uacc'', ''Accel'', ''AccelStable'', ''AngRt'', ''Mag'']\<rparr>)"
  by (simp add: cm_call_def Let_def and_then_def cm_rotateVel2body_def getitem_def assign_def
      motion_example_def)

text \<open>
  Claim C8: on a data set at rest, \<open>correct_motion.__call__\<close> leaves in \<open>advo._u\<close>
  the velocity rotated to the body frame (the transpose of \<open>body2head_rotmat\<close> applied
  to every sample), and \<open>urot\<close> and \<open>uacc\<close> are zero throughout. The data set has
  the shapes that the code indexes: \<open>_u\<close>, \<open>AngRt\<close> and \<open>Accel\<close> are (3, n),
  \<open>orientmat\<close> is (3, 3, n), the rotation matrix is (3, 3), the position vector has
  three elements, and \<open>fs\<close> is not zero. The library routines are assumed to return
  on the calls that are made, \<open>filtfilt\<close> to give the zero series for the zero series,
  and \<open>np.linalg.inv\<close> (called only for separate probes of a Nortek Vector with a
  transformation matrix) to give a (3, 3) matrix. \<open>uacc\<close> is (3, n), and (3, 1) when
  \<open>n\<close> is 0.
\<close>

theorem zero_motion_correction:
  assumes R: "body2head_rotmat advo = Some R" "is_mat 3 3 R"
    and bv: "body2head_vec advo = Some bv" "length bv = 3"
    and U: "is_mat 3 n (vel_u advo)"
    and za: "AngRt advo = zeros 3 n" and zc: "Accel advo = zeros 3 n"
    and om: "is_ten 3 3 n (orientmat advo)"
    and fs: "fs advo \<noteq> 0"
    and b1: "butter lib 1 (accel_filtfreq self / (fs advo / 2)) = Inr flt"
    and f1: "filtfilt lib (fst flt) (snd flt) (replicate n 0) = Inr (replicate n 0)"
    and b2: "butter lib 2 (accelvel_filtfreq self / (fs advo / 2)) = Inr filt"
    and f2: "filtfilt lib (fst filt) (snd filt) (replicate (max 1 n) 0) = Inr (replicate (max 1 n) 0)"
    and tm: "\<forall>T. separate_probes self \<and> inst_make advo = Some ''Nortek'' \<and>
               inst_model advo = Some ''VECTOR'' \<and> TransMatrix advo = Some T \<longrightarrow>
               is_mat 3 3 T \<and> (\<exists>Ti. linalg_inv lib T = Inr Ti \<and> is_mat 3 3 Ti)"
  shows "fst (cm_call lib self advo) = None
       \<and> vel_u (snd (cm_call lib self advo)) =
           map (\<lambda>i. map (\<lambda>j. \<Sum>k\<leftarrow>[0..<3]. R ! k ! i * vel_u advo ! k ! j) [0..<n]) [0..<3]
       \<and> urot (snd (cm_call lib self advo)) = Some (zeros 3 n)
       \<and> uacc (snd (cm_call lib self advo)) = Some (zeros 3 (max 1 n))"
proof -
  define advo0 where "advo0 = advo\<lparr>rotate_vars :=
            (case rotate_vars advo of
               None \<Rightarrow> Some [''_u'', ''urot'', ''uacc'', ''Accel'', ''AccelStable'', ''AngRt'', ''Mag'']
             | Some vars \<Rightarrow> Some (vars @ [''urot'', ''uacc'', ''AccelStable'']))\<rparr>"
  define U' where "U' = map (\<lambda>i. map (\<lambda>j. \<Sum>k\<leftarrow>[0..<3]. R ! k ! i * vel_u advo ! k ! j) [0..<n]) [0..<3]"
  define advo1 where "advo1 = advo0\<lparr>vel_u := U'\<rparr>"
  define advo2 where "advo2 = advo1\<lparr>urot := Some (zeros 3 n),
      orient_group := insert ''urot'' (orient_group advo1)\<rparr>"
  define advo3 where "advo3 = advo2\<lparr>AccelStable := Some (zeros 3 n),
      orient_group := insert ''AccelStable'' (orient_group advo2)\<rparr>"
  define advo4 where "advo4 = advo3\<lparr>uacc := Some (zeros 3 (max 1 n)),
      orient_group := insert ''uacc'' (orient_group advo3)\<rparr>"
  have U'm: "is_mat 3 n U'" by (simp add: U'_def is_mat_def list_all_iff)
  have s1: "cm_rotateVel2body advo0 = (None, advo1)"
    unfolding advo1_def U'_def
    using cm_rotateVel2body_ok [of advo0 R n] R U by (simp add: advo0_def)
  have s2: "cm_calcRotVel lib self advo1 = (None, advo2)"
    unfolding advo2_def
  proof (rule cm_calcRotVel_zero [where R = R and bv = bv])
    show "body2head_rotmat advo1 = Some R" by (simp add: advo1_def advo0_def R)
    show "is_mat 3 3 R" by (rule R)
    show "body2head_vec advo1 = Some bv" by (simp add: advo1_def advo0_def bv)
    show "length bv = 3" by (rule bv)
    show "AngRt advo1 = zeros 3 n" by (simp add: advo1_def advo0_def za)
  next
    fix T
    assume "separate_probes self" "inst_make advo1 = Some ''Nortek''"
      "inst_model advo1 = Some ''VECTOR''" "TransMatrix advo1 = Some T"
    then have "separate_probes self \<and> inst_make advo = Some ''Nortek'' \<and>
               inst_model advo = Some ''VECTOR'' \<and> TransMatrix advo = Some T"
      by (simp add: advo1_def advo0_def)
    with tm [rule_format, of T]
    show "is_mat 3 3 T \<and> (\<exists>Ti. linalg_inv lib T = Inr Ti \<and> is_mat 3 3 Ti)" .
  qed
  have s3: "cm_calcAccelStable lib self advo2 = (None, advo3)"
    unfolding advo3_def
  proof (rule cm_calcAccelStable_zero [where flt = flt])
    show "Accel advo2 = zeros 3 n" by (simp add: advo2_def advo1_def advo0_def zc)
    show "is_ten 3 3 n (orientmat advo2)" by (simp add: advo2_def advo1_def advo0_def om)
    show "fs advo2 \<noteq> 0" by (simp add: advo2_def advo1_def advo0_def fs)
    show "butter lib 1 (accel_filtfreq self / (fs advo2 / 2)) = Inr flt"
      using b1 by (simp add: advo2_def advo1_def advo0_def)
    show "filtfilt lib (fst flt) (snd flt) (replicate n 0) = Inr (replicate n 0)" by (rule f1)
  qed
  have s4: "cm_calcAccelVel lib self advo3 = (None, advo4)"
    unfolding advo4_def
  proof (rule cm_calcAccelVel_zero [where filt = filt])
    show "AccelStable advo3 = Some (zeros 3 n)" by (simp add: advo3_def)
    show "Accel advo3 = zeros 3 n" by (simp add: advo3_def advo2_def advo1_def advo0_def zc)
    show "fs advo3 \<noteq> 0" by (simp add: advo3_def advo2_def advo1_def advo0_def fs)
    show "butter lib 2 (accelvel_filtfreq self / (fs advo3 / 2)) = Inr filt"
      using b2 by (simp add: advo3_def advo2_def advo1_def advo0_def)
    show "filtfilt lib (fst filt) (snd filt) (replicate (max 1 n) 0) = Inr (replicate (max 1 n) 0)"
      by (rule f2)
  qed
  have s5: "cm_subtract advo4 = (None, advo4)"
  proof (rule cm_subtract_zero [where n = n])
    show "urot advo4 = Some (zeros 3 n)" by (simp add: advo4_def advo3_def advo2_def)
    show "uacc advo4 = Some (zeros 3 (max 1 n))" by (simp add: advo4_def)
    show "is_mat 3 n (vel_u advo4)"
      using U'm by (simp add: advo4_def advo3_def advo2_def advo1_def)
  qed
  have "cm_call lib self advo = (None, advo4)"
    by (simp add: cm_call_def Let_def advo0_def [symmetric] and_then_def s1 s2 s3 s4 s5)
  moreover have "vel_u advo4 = U'" by (simp add: advo4_def advo3_def advo2_def advo1_def)
  moreover have "urot advo4 = Some (zeros 3 n)" by (simp add: advo4_def advo3_def advo2_def)
  moreover have "uacc advo4 = Some (zeros 3 (max 1 n))" by (simp add: advo4_def)
  ultimately show ?thesis by (simp add: U'_def)
qed

theorem zero_motion_correction_witness:
  "fst (cm_call lib_example (correct_motion_init (1 / 30) (1 / 100) False) motion_example) = None
   \<and> vel_u (snd (cm_call lib_example (correct_motion_init (1 / 30) (1 / 100) False) motion_example))
       = [[- 3, - 4], [1, 2], [5, 6]]
   \<and> urot (snd (cm_call lib_example (correct_motion_init (1 / 30) (1 / 100) False) motion_example))
       = Some [[0, 0], [0, 0], [0, 0]]
   \<and> uacc (snd (cm_call lib_example (correct_motion_init (1 / 30) (1 / 100) False) motion_example))
       = Some [[0, 0], [0, 0], [0, 0]]
   \<and> fst (cm_call lib_example (correct_motion_init (1 / 30) (1 / 100) True) motion_example) = None
   \<and> vel_u (snd (cm_call lib_example (correct_motion_init (1 / 30) (1 / 100) True) motion_example))
       = [[- 3, - 4], [1, 2], [5, 6]]
   \<and> urot (snd (cm_call lib_example (correct_motion_init (1 / 30) (1 / 100) True) motion_example))
       = Some [[0, 0], [0, 0], [0, 0]]
   \<and> uacc (snd (cm_call lib_example (correct_motion_init (1 / 30) (1 / 100) True) motion_example))
       = Some [[0, 0], [0, 0], [0, 0]]"
proof -
  let ?R = "[[0, 1, 0], [- 1, 0, 0], [0, 0, 1]] :: mat"
  let ?I = "[[1, 0, 0], [0, 1, 0], [0, 0, 1]] :: mat"
  have R: "body2head_rotmat motion_example = Some ?R" "is_mat 3 3 ?R"
    by (simp_all add: motion_example_def is_mat_def)
  have bv: "body2head_vec motion_example = Some [1, 2, 3]" "length [1, 2, 3 :: real] = 3"
    by (simp_all add: motion_example_def)
  have U: "is_mat 3 2 (vel_u motion_example)" by (simp add: motion_example_def is_mat_def)
  have za: "AngRt motion_example = zeros 3 2" and zc: "Accel motion_example = zeros 3 2"
    by (simp_all add: motion_example_def zeros_def numeral_3_eq_3 numeral_2_eq_2)
  have om: "is_ten 3 3 2 (orientmat motion_example)"
    by (simp add: motion_example_def is_ten_def is_mat_def)
  have fs: "fs motion_example \<noteq> 0" by (simp add: motion_example_def)
  have b1: "butter lib_example 1
      (accel_filtfreq (correct_motion_init (1 / 30) (1 / 100) s) / (fs motion_example / 2)) =
      Inr ([1 / 2], [1])" for s
    by (simp add: lib_example_def correct_motion_init_def motion_example_def)
  have b2: "butter lib_example 2
      (accelvel_filtfreq (correct_motion_init (1 / 30) (1 / 100) s) / (fs motion_example / 2)) =
      Inr ([1 / 2], [1])" for s
    by (simp add: lib_example_def correct_motion_init_def motion_example_def)
  have f1: "filtfilt lib_example (fst ([1 / 2], [1])) (snd ([1 / 2], [1])) (replicate 2 0) =
      Inr (replicate 2 0)"
    by (simp add: lib_example_def)
  have f2: "filtfilt lib_example (fst ([1 / 2], [1])) (snd ([1 / 2], [1])) (replicate (max 1 2) 0) =
      Inr (replicate (max 1 2) 0)"
    by (simp add: lib_example_def)
  have tm: "\<forall>T. separate_probes (correct_motion_init (1 / 30) (1 / 100) s) \<and>
               inst_make motion_example = Some ''Nortek'' \<and>
               inst_model motion_example = Some ''VECTOR'' \<and> TransMatrix motion_example = Some T \<longrightarrow>
               is_mat 3 3 T \<and> (\<exists>Ti. linalg_inv lib_example T = Inr Ti \<and> is_mat 3 3 Ti)" for s
    by (simp add: motion_example_def lib_example_def is_mat_def)
  have u: "vel_u motion_example = [[1, 2], [3, 4], [5, 6]]" by (simp add: motion_example_def)
  have e: "map (\<lambda>i. map (\<lambda>j. \<Sum>k\<leftarrow>[0..<3]. ?R ! k ! i * [[1, 2], [3, 4], [5, 6]] ! k ! j) [0..<2]) [0..<3]
      = [[- 3, - 4], [1, 2], [5, 6 :: real]]"
    by (simp add: upt_rec)
  have z: "zeros 3 2 = [[0, 0], [0, 0], [0, 0]]" "zeros 3 (max 1 2) = [[0, 0], [0, 0], [0, 0]]"
    by (simp_all add: zeros_def numeral_3_eq_3 numeral_2_eq_2)
  note t = zero_motion_correction [OF R bv U za zc om fs b1 f1 b2 f2 tm, unfolded u e z]
  from t [of False] t [of True] show ?thesis by (intro conjI) blast+
qed

end
